theory Spec2Isabelle
  imports
    Main
    "HOL-Library.Word"
    "HOL-Library.DAList"
    "HOL-Library.Char_ord"
    "HOL-Library.List_Lexorder"
    "HOL-Library.Product_Lexorder"
    "HOL-Library.Option_ord"
    "HOL-Library.Multiset"
begin

section \<open>The superchain registry: version resolution and scope merge\<close>

text \<open>
  A shallow embedding of \<^verbatim>\<open>superchain/superchain.go\<close>: the functions
  \<^verbatim>\<open>canonicalizeSemver\<close>, \<^verbatim>\<open>AddressSet.Get\<close>,
  \<^verbatim>\<open>AddressSet.Versions\<close>, \<^verbatim>\<open>resolve\<close>,
  \<^verbatim>\<open>ContractImplementations.Resolve\<close>, \<^verbatim>\<open>copySemverMap\<close> and
  \<^verbatim>\<open>ContractImplementations.Merge\<close>, together with the parts of the Go
  libraries they call (\<^verbatim>\<open>strings\<close>, \<^verbatim>\<open>maps\<close>, \<^verbatim>\<open>fmt\<close> and
  \<^verbatim>\<open>golang.org/x/mod/semver\<close>).

  Go strings are byte strings: \<^typ>\<open>string\<close> with the byte order of
  \<^verbatim>\<open>Char_ord\<close> and the lexicographic order of \<^verbatim>\<open>List_Lexorder\<close>,
  which is Go's \<^verbatim>\<open><\<close> on strings.
\<close>

subsection \<open>Go's \<^verbatim>\<open>strings\<close> package\<close>

definition HasPrefix :: "string \<Rightarrow> string \<Rightarrow> bool" where
  "HasPrefix s pre = (length pre \<le> length s \<and> take (length pre) s = pre)"

definition TrimPrefix :: "string \<Rightarrow> string \<Rightarrow> string" where
  "TrimPrefix s pre = (if HasPrefix s pre then drop (length pre) s else s)"

subsection \<open>The library \<^verbatim>\<open>golang.org/x/mod/semver\<close>\<close>

text \<open>
  The registry imports the semver library (line 14 of the source) and calls
  \<^verbatim>\<open>semver.Compare\<close>, \<^verbatim>\<open>semver.Sort\<close> and \<^verbatim>\<open>semver.IsValid\<close>.
  The library is an external dependency, not a file of the repository; the functions of
  its file \<^verbatim>\<open>semver.go\<close> that these three run are embedded here one by one, under
  their own names. What the theorems below use of them: a version is \<^verbatim>\<open>v\<close>,
  \<^verbatim>\<open>MAJOR[.MINOR[.PATCH[-PRERELEASE][+BUILD]]]\<close>; an omitted minor or patch number is
  \<open>0\<close>; build metadata is not compared; an invalid string is below every valid
  version, and all invalid strings tie.
\<close>

record parsed =
  major :: string
  minor :: string
  patch :: string
  short :: string
  prerelease :: string
  build :: string

definition isDigit :: "char \<Rightarrow> bool" where
  "isDigit c = (CHR ''0'' \<le> c \<and> c \<le> CHR ''9'')"

definition isIdentChar :: "char \<Rightarrow> bool" where
  "isIdentChar c =
     (CHR ''A'' \<le> c \<and> c \<le> CHR ''Z'' \<or> CHR ''a'' \<le> c \<and> c \<le> CHR ''z''
      \<or> CHR ''0'' \<le> c \<and> c \<le> CHR ''9'' \<or> c = CHR ''-'')"

text \<open>
  \<^verbatim>\<open>isBadNum\<close> and \<^verbatim>\<open>isNum\<close> advance an index \<^verbatim>\<open>i\<close> over the
  leading digits; \<open>i\<close> is the length of that digit prefix.
\<close>

definition isBadNum :: "string \<Rightarrow> bool" where
  "isBadNum v =
     (let i = length (takeWhile isDigit v)
      in i = length v \<and> i > 1 \<and> hd v = CHR ''0'')"

definition isNum :: "string \<Rightarrow> bool" where
  "isNum v = (let i = length (takeWhile isDigit v) in i = length v)"

text \<open>
  \<^verbatim>\<open>parseInt\<close> returns \<^verbatim>\<open>(t, rest, ok)\<close>; \<open>None\<close> is \<^verbatim>\<open>ok = false\<close>.
\<close>

definition parseInt :: "string \<Rightarrow> (string \<times> string) option" where
  "parseInt v =
     (case v of
        [] \<Rightarrow> None
      | c # cs \<Rightarrow>
          if c < CHR ''0'' \<or> CHR ''9'' < c then None
          else
            let t = c # takeWhile isDigit cs; rest = dropWhile isDigit cs
            in if c = CHR ''0'' \<and> length t \<noteq> 1 then None else Some (t, rest))"

text \<open>
  The loop of \<^verbatim>\<open>parsePrerelease\<close>: \<open>done\<close> is \<^verbatim>\<open>v[:i]\<close>, \<open>cur\<close> is
  \<^verbatim>\<open>v[start:i]\<close> and the list argument is \<^verbatim>\<open>v[i:]\<close>. The loop stops at
  the end of the string or at a \<^verbatim>\<open>+\<close>.
\<close>

fun parsePrerelease_loop :: "string \<Rightarrow> string \<Rightarrow> string \<Rightarrow> (string \<times> string) option" where
  "parsePrerelease_loop done cur [] =
     (if cur = [] \<or> isBadNum cur then None else Some (done, []))"
| "parsePrerelease_loop done cur (c # cs) =
     (if c = CHR ''+'' then
        (if cur = [] \<or> isBadNum cur then None else Some (done, c # cs))
      else if \<not> isIdentChar c \<and> c \<noteq> CHR ''.'' then None
      else if c = CHR ''.'' then
        (if cur = [] \<or> isBadNum cur then None
         else parsePrerelease_loop (done @ [c]) [] cs)
      else parsePrerelease_loop (done @ [c]) (cur @ [c]) cs)"

definition parsePrerelease :: "string \<Rightarrow> (string \<times> string) option" where
  "parsePrerelease v =
     (case v of
        [] \<Rightarrow> None
      | c # cs \<Rightarrow> if c \<noteq> CHR ''-'' then None else parsePrerelease_loop [c] [] cs)"

fun parseBuild_loop :: "string \<Rightarrow> string \<Rightarrow> string \<Rightarrow> (string \<times> string) option" where
  "parseBuild_loop done cur [] = (if cur = [] then None else Some (done, []))"
| "parseBuild_loop done cur (c # cs) =
     (if \<not> isIdentChar c \<and> c \<noteq> CHR ''.'' then None
      else if c = CHR ''.'' then
        (if cur = [] then None else parseBuild_loop (done @ [c]) [] cs)
      else parseBuild_loop (done @ [c]) (cur @ [c]) cs)"

definition parseBuild :: "string \<Rightarrow> (string \<times> string) option" where
  "parseBuild v =
     (case v of
        [] \<Rightarrow> None
      | c # cs \<Rightarrow> if c \<noteq> CHR ''+'' then None else parseBuild_loop [c] [] cs)"

text \<open>
  \<^verbatim>\<open>parse\<close> returns \<^verbatim>\<open>(p, ok)\<close>; \<open>None\<close> is \<^verbatim>\<open>ok = false\<close>.
  Every early \<^verbatim>\<open>return\<close> of the source is one branch.
\<close>

definition parse :: "string \<Rightarrow> parsed option" where
  "parse v =
     (case v of
        [] \<Rightarrow> None
      | c # v1 \<Rightarrow>
          if c \<noteq> CHR ''v'' then None
          else
            (case parseInt v1 of
               None \<Rightarrow> None
             | Some (maj, v2) \<Rightarrow>
                 if v2 = [] then
                   Some \<lparr>major = maj, minor = ''0'', patch = ''0'', short = ''.0.0'',
                          prerelease = [], build = []\<rparr>
                 else if hd v2 \<noteq> CHR ''.'' then None
                 else
                   (case parseInt (tl v2) of
                      None \<Rightarrow> None
                    | Some (mi, v3) \<Rightarrow>
                        if v3 = [] then
                          Some \<lparr>major = maj, minor = mi, patch = ''0'', short = ''.0'',
                                 prerelease = [], build = []\<rparr>
                        else if hd v3 \<noteq> CHR ''.'' then None
                        else
                          (case parseInt (tl v3) of
                             None \<Rightarrow> None
                           | Some (pa, v4) \<Rightarrow>
                               (case (if v4 \<noteq> [] \<and> hd v4 = CHR ''-''
                                      then parsePrerelease v4 else Some ([], v4)) of
                                  None \<Rightarrow> None
                                | Some (pre, v5) \<Rightarrow>
                                    (case (if v5 \<noteq> [] \<and> hd v5 = CHR ''+''
                                           then parseBuild v5 else Some ([], v5)) of
                                       None \<Rightarrow> None
                                     | Some (bld, v6) \<Rightarrow>
                                         if v6 \<noteq> [] then None
                                         else
                                           Some \<lparr>major = maj, minor = mi, patch = pa,
                                                  short = [], prerelease = pre,
                                                  build = bld\<rparr>))))))"

definition IsValid :: "string \<Rightarrow> bool" where
  "IsValid v = (parse v \<noteq> None)"

definition compareInt :: "string \<Rightarrow> string \<Rightarrow> int" where
  "compareInt x y =
     (if x = y then 0
      else if length x < length y then - 1
      else if length x > length y then 1
      else if x < y then - 1
      else 1)"

definition nextIdent :: "string \<Rightarrow> string \<times> string" where
  "nextIdent x = (takeWhile (\<lambda>c. c \<noteq> CHR ''.'') x, dropWhile (\<lambda>c. c \<noteq> CHR ''.'') x)"

text \<open>
  The comparison of two identifiers \<^verbatim>\<open>dx != dy\<close> inside the loop of
  \<^verbatim>\<open>comparePrerelease\<close>.
\<close>

definition compareIdent :: "string \<Rightarrow> string \<Rightarrow> int" where
  "compareIdent dx dy =
     (let ix = isNum dx; iy = isNum dy
      in if ix \<noteq> iy then (if ix then - 1 else 1)
         else if ix \<and> length dx < length dy then - 1
         else if ix \<and> length dx > length dy then 1
         else if dx < dy then - 1
         else 1)"

text \<open>
  The loop \<^verbatim>\<open>for x != "" && y != ""\<close> of \<^verbatim>\<open>comparePrerelease\<close>, with the
  two statements that follow it. Each round drops the separator and one identifier
  from both strings.
\<close>

function comparePrerelease_loop :: "string \<Rightarrow> string \<Rightarrow> int" where
  "comparePrerelease_loop x y =
     (if x \<noteq> [] \<and> y \<noteq> [] then
        (if fst (nextIdent (tl x)) \<noteq> fst (nextIdent (tl y))
         then compareIdent (fst (nextIdent (tl x))) (fst (nextIdent (tl y)))
         else comparePrerelease_loop (snd (nextIdent (tl x))) (snd (nextIdent (tl y))))
      else if x = [] then - 1
      else 1)"
  by pat_completeness auto
termination
proof (relation "measure (\<lambda>(x, y). length x)")
  show "wf (measure (\<lambda>(x, y). length x))" by simp
next
  fix x y :: string
  assume "x \<noteq> [] \<and> y \<noteq> []"
  then have "length (tl x) < length x" by (cases x) simp_all
  moreover have "length (dropWhile (\<lambda>c. c \<noteq> CHR ''.'') (tl x)) \<le> length (tl x)"
    by (rule length_dropWhile_le)
  ultimately show "((snd (nextIdent (tl x)), snd (nextIdent (tl y))), x, y)
      \<in> measure (\<lambda>(x, y). length x)"
    by (simp add: nextIdent_def)
qed

definition comparePrerelease :: "string \<Rightarrow> string \<Rightarrow> int" where
  "comparePrerelease x y =
     (if x = y then 0
      else if x = [] then 1
      else if y = [] then - 1
      else comparePrerelease_loop x y)"

definition Compare :: "string \<Rightarrow> string \<Rightarrow> int" where
  "Compare v w =
     (case (parse v, parse w) of
        (None, None) \<Rightarrow> 0
      | (None, Some pw) \<Rightarrow> - 1
      | (Some pv, None) \<Rightarrow> 1
      | (Some pv, Some pw) \<Rightarrow>
          if compareInt (major pv) (major pw) \<noteq> 0 then compareInt (major pv) (major pw)
          else if compareInt (minor pv) (minor pw) \<noteq> 0 then compareInt (minor pv) (minor pw)
          else if compareInt (patch pv) (patch pw) \<noteq> 0 then compareInt (patch pv) (patch pw)
          else comparePrerelease (prerelease pv) (prerelease pw))"

text \<open>
  \<^verbatim>\<open>ByVersion.Less\<close>: semver precedence first, the string order between versions
  of equal precedence.
\<close>

definition ByVersion_Less :: "string \<Rightarrow> string \<Rightarrow> bool" where
  "ByVersion_Less v w =
     (let cmp = Compare v w in if cmp \<noteq> 0 then cmp < 0 else v < w)"

text \<open>
  \<^verbatim>\<open>semver.Sort\<close> is \<^verbatim>\<open>sort.Sort(ByVersion(list))\<close>. \<open>ByVersion_Less\<close>
  is a strict linear order (lemma \<open>ByVersion_Less_key\<close> below), so the sorted list is
  the same whatever algorithm sorts it; insertion sort stands for Go's.
\<close>

fun Sort_insert :: "string \<Rightarrow> string list \<Rightarrow> string list" where
  "Sort_insert v [] = [v]"
| "Sort_insert v (w # ws) =
     (if ByVersion_Less w v then w # Sort_insert v ws else v # w # ws)"

definition Sort :: "string list \<Rightarrow> string list" where
  "Sort list = foldr Sort_insert list []"

subsection \<open>Go's \<^verbatim>\<open>fmt.Errorf\<close>\<close>

text \<open>
  An \<^verbatim>\<open>error\<close> made by \<^verbatim>\<open>fmt.Errorf\<close>: a message alone, or, with the
  verb \<^verbatim>\<open>%w\<close>, a message and the wrapped cause (what \<^verbatim>\<open>errors.Unwrap\<close>
  returns). A \<^verbatim>\<open>nil\<close> error is \<open>None\<close> of \<open>error option\<close>.
\<close>

datatype error = errorString string | wrapError string error

fun Error :: "error \<Rightarrow> string" where
  "Error (errorString s) = s"
| "Error (wrapError msg err) = msg"

fun Unwrap :: "error \<Rightarrow> error option" where
  "Unwrap (errorString s) = None"
| "Unwrap (wrapError msg err) = Some err"

text \<open>\<^verbatim>\<open>fmt.Errorf(pre + "%w", err)\<close>, for a format that ends in the verb.\<close>

definition Errorf_w :: "string \<Rightarrow> error \<Rightarrow> error" where
  "Errorf_w pre err = wrapError (pre @ Error err) err"

subsection \<open>The data of the registry\<close>

text \<open>
  Modelled from the spec: the type \<^verbatim>\<open>Address\<close> is declared in another file of the
  package. The spec treats an address as an opaque value with a zero address; here it is
  a word of 20 bytes, whose zero value is \<open>0\<close>.
\<close>

type_synonym Address = "160 word"

text \<open>
  \<^verbatim>\<open>type AddressSet map[string]Address\<close>. The contents of a Go map are a list of
  entries with distinct keys, in the order in which \<^verbatim>\<open>range\<close> would visit them;
  Go fixes no such order, and every theorem below holds for every order.
\<close>

type_synonym AddressSet = "(string, Address) alist"

record VersionedContract =
  Version :: string
  Address :: Address

text \<open>The zero value \<^verbatim>\<open>VersionedContract{}\<close>.\<close>

definition VersionedContract_zero :: VersionedContract where
  "VersionedContract_zero = \<lparr>Version = [], Address = 0\<rparr>"

text \<open>
  The three structs \<^verbatim>\<open>ImplementationList\<close>, \<^verbatim>\<open>ContractImplementations\<close>
  and \<^verbatim>\<open>ContractVersions\<close> have the same seven fields, one per contract. The field
  names are the values of \<open>Role\<close>, in the order of declaration, and a struct is the
  function from each field name to the field's value: \<open>c L1StandardBridge\<close> is
  \<^verbatim>\<open>c.L1StandardBridge\<close>.
\<close>

datatype Role =
    L1CrossDomainMessenger
  | L1ERC721Bridge
  | L1StandardBridge
  | L2OutputOracle
  | OptimismMintableERC20Factory
  | OptimismPortal
  | SystemConfig

type_synonym ImplementationList = "Role \<Rightarrow> VersionedContract"

type_synonym ContractVersions = "Role \<Rightarrow> string"

text \<open>
  A Go map is a reference: a field of \<^verbatim>\<open>ContractImplementations\<close> is \<^verbatim>\<open>nil\<close>
  (\<open>None\<close>) or points to a map object, and two fields may point to the same object.
  The heap gives the contents of every map object.
\<close>

type_synonym mapref = "nat option"

type_synonym heap = "nat \<Rightarrow> AddressSet"

type_synonym ContractImplementations = "Role \<Rightarrow> mapref"

text \<open>Reading a map value: a \<^verbatim>\<open>nil\<close> map reads as the empty map.\<close>

definition deref :: "heap \<Rightarrow> mapref \<Rightarrow> AddressSet" where
  "deref h m = (case m of None \<Rightarrow> DAList.empty | Some r \<Rightarrow> h r)"

subsection \<open>\<^verbatim>\<open>canonicalizeSemver\<close>, \<^verbatim>\<open>Get\<close>, \<^verbatim>\<open>Versions\<close>\<close>

definition canonicalizeSemver :: "string \<Rightarrow> string" where
  "canonicalizeSemver version =
     (if \<not> HasPrefix version ''v'' then ''v'' @ version else version)"

text \<open>
  \<^verbatim>\<open>Get\<close> returns one value, the address; a key that is not in a Go map reads as
  the zero value.
\<close>

definition Get :: "AddressSet \<Rightarrow> string \<Rightarrow> Address" where
  "Get a key0 =
     (let key = (if \<not> HasPrefix key0 ''v'' then ''v'' @ key0 else key0)
      in case DAList.lookup a (TrimPrefix key ''v'') of
           Some addr \<Rightarrow> addr
         | None \<Rightarrow> (case DAList.lookup a key of Some addr \<Rightarrow> addr | None \<Rightarrow> 0))"

text \<open>\<^verbatim>\<open>maps.Keys\<close>: the keys, in the order of the iteration.\<close>

definition Keys :: "AddressSet \<Rightarrow> string list" where
  "Keys a = map fst (DAList.impl_of a)"

definition Versions :: "AddressSet \<Rightarrow> string list" where
  "Versions a = Sort (map canonicalizeSemver (Keys a))"

subsection \<open>\<^verbatim>\<open>resolve\<close> and \<^verbatim>\<open>ContractImplementations.Resolve\<close>\<close>

text \<open>
  The loop \<^verbatim>\<open>for _, k := range keys\<close> of \<^verbatim>\<open>resolve\<close>, from the keys that are
  left and the current \<^verbatim>\<open>out\<close>; the \<^verbatim>\<open>break\<close> leaves the loop with the
  \<^verbatim>\<open>out\<close> just assigned.
\<close>

fun resolve_loop :: "AddressSet \<Rightarrow> string \<Rightarrow> string list \<Rightarrow> VersionedContract \<Rightarrow> VersionedContract" where
  "resolve_loop a version [] out = out"
| "resolve_loop a version (k # ks) out =
     (let res = Compare k version
      in if res \<ge> 0 then
           (let out' = \<lparr>Version = k, Address = Get a k\<rparr>
            in if res = 0 then out' else resolve_loop a version ks out')
         else resolve_loop a version ks out)"

text \<open>
  \<^verbatim>\<open>resolve\<close> returns the pair \<^verbatim>\<open>(out, err)\<close>, as Go does; \<open>None\<close> is the
  \<^verbatim>\<open>nil\<close> error.
\<close>

definition resolve :: "AddressSet \<Rightarrow> string \<Rightarrow> VersionedContract \<times> error option" where
  "resolve a version0 =
     (let version = canonicalizeSemver version0;
          out = VersionedContract_zero;
          keys = Versions a
      in if length keys = 0 then (out, Some (errorString ''no implementations found''))
         else
           (let out = resolve_loop a version keys out
            in if out = VersionedContract_zero
               then (out, Some (errorString ''cannot resolve semver''))
               else (out, None)))"

text \<open>
  \<^verbatim>\<open>Resolve\<close> returns the pair \<^verbatim>\<open>(implementations, err)\<close>. Each of its seven
  statements assigns the first result of \<^verbatim>\<open>resolve\<close> to one field of
  \<^verbatim>\<open>implementations\<close> and returns \<^verbatim>\<open>implementations\<close> as it stands, with the
  wrapped error, when the second result is not \<^verbatim>\<open>nil\<close>.
\<close>

definition Resolve :: "heap \<Rightarrow> ContractImplementations \<Rightarrow> ContractVersions \<Rightarrow> ImplementationList \<times> error option" where
  "Resolve h c versions =
     (let implementations = (\<lambda>_. VersionedContract_zero);
          (out, err) = resolve (deref h (c L1CrossDomainMessenger)) (versions L1CrossDomainMessenger);
          implementations = implementations(L1CrossDomainMessenger := out)
      in case err of Some e \<Rightarrow> (implementations, Some (Errorf_w ''L1CrossDomainMessenger: '' e)) | None \<Rightarrow>
     (let (out, err) = resolve (deref h (c L1ERC721Bridge)) (versions L1ERC721Bridge);
          implementations = implementations(L1ERC721Bridge := out)
      in case err of Some e \<Rightarrow> (implementations, Some (Errorf_w ''L1ERC721Bridge: '' e)) | None \<Rightarrow>
     (let (out, err) = resolve (deref h (c L1StandardBridge)) (versions L1StandardBridge);
          implementations = implementations(L1StandardBridge := out)
      in case err of Some e \<Rightarrow> (implementations, Some (Errorf_w ''L1StandardBridge: '' e)) | None \<Rightarrow>
     (let (out, err) = resolve (deref h (c L2OutputOracle)) (versions L2OutputOracle);
          implementations = implementations(L2OutputOracle := out)
      in case err of Some e \<Rightarrow> (implementations, Some (Errorf_w ''L2OutputOracle: '' e)) | None \<Rightarrow>
     (let (out, err) = resolve (deref h (c OptimismMintableERC20Factory)) (versions OptimismMintableERC20Factory);
          implementations = implementations(OptimismMintableERC20Factory := out)
      in case err of Some e \<Rightarrow> (implementations, Some (Errorf_w ''OptimismMintableERC20Factory: '' e)) | None \<Rightarrow>
     (let (out, err) = resolve (deref h (c OptimismPortal)) (versions OptimismPortal);
          implementations = implementations(OptimismPortal := out)
      in case err of Some e \<Rightarrow> (implementations, Some (Errorf_w ''OptimismPortal: '' e)) | None \<Rightarrow>
     (let (out, err) = resolve (deref h (c SystemConfig)) (versions SystemConfig);
          implementations = implementations(SystemConfig := out)
      in case err of Some e \<Rightarrow> (implementations, Some (Errorf_w ''SystemConfig: '' e)) | None \<Rightarrow>
     (implementations, None))))))))"

text \<open>
  The order of the seven statements of \<^verbatim>\<open>Resolve\<close> (and of \<^verbatim>\<open>Merge\<close>), the
  name each one puts in front of its error, and the seven statements as one loop over
  that order (lemma \<open>Resolve_eq_steps\<close> below shows it is \<open>Resolve\<close>).
\<close>

definition roles :: "Role list" where
  "roles = [L1CrossDomainMessenger, L1ERC721Bridge, L1StandardBridge, L2OutputOracle,
            OptimismMintableERC20Factory, OptimismPortal, SystemConfig]"

fun roleName :: "Role \<Rightarrow> string" where
  "roleName L1CrossDomainMessenger = ''L1CrossDomainMessenger''"
| "roleName L1ERC721Bridge = ''L1ERC721Bridge''"
| "roleName L1StandardBridge = ''L1StandardBridge''"
| "roleName L2OutputOracle = ''L2OutputOracle''"
| "roleName OptimismMintableERC20Factory = ''OptimismMintableERC20Factory''"
| "roleName OptimismPortal = ''OptimismPortal''"
| "roleName SystemConfig = ''SystemConfig''"

fun Resolve_steps :: "heap \<Rightarrow> ContractImplementations \<Rightarrow> ContractVersions \<Rightarrow> Role list \<Rightarrow> ImplementationList \<Rightarrow> ImplementationList \<times> error option" where
  "Resolve_steps h c versions [] implementations = (implementations, None)"
| "Resolve_steps h c versions (r # rs) implementations =
     (case snd (resolve (deref h (c r)) (versions r)) of
        Some e \<Rightarrow>
          (implementations(r := fst (resolve (deref h (c r)) (versions r))),
           Some (Errorf_w (roleName r @ '': '') e))
      | None \<Rightarrow>
          Resolve_steps h c versions rs
            (implementations(r := fst (resolve (deref h (c r)) (versions r)))))"

subsection \<open>\<^verbatim>\<open>copySemverMap\<close> and \<^verbatim>\<open>ContractImplementations.Merge\<close>\<close>

text \<open>
  \<^verbatim>\<open>maps.Copy(dst, src)\<close> is \<^verbatim>\<open>for k, v := range src { dst[k] = v }\<close>: it
  writes into the map object of \<open>dst\<close>. Writing an entry into a \<^verbatim>\<open>nil\<close> map
  panics (\<open>None\<close>); with nothing to copy, nothing is written.
\<close>

definition copySemverMap :: "heap \<Rightarrow> mapref \<Rightarrow> mapref \<Rightarrow> heap option" where
  "copySemverMap h dst src =
     (case dst of
        None \<Rightarrow> if DAList.impl_of (deref h src) = [] then Some h else None
      | Some d \<Rightarrow>
          Some (h(d := fold (\<lambda>(k, v). DAList.update k v) (DAList.impl_of (deref h src)) (h d))))"

text \<open>
  \<^verbatim>\<open>Merge\<close> has no result: it changes the map objects of its receiver. The model
  returns the heap after the call, or \<open>None\<close> when the call panics.
\<close>

definition Merge :: "heap \<Rightarrow> ContractImplementations \<Rightarrow> ContractImplementations \<Rightarrow> heap option" where
  "Merge h c other =
     (case copySemverMap h (c L1CrossDomainMessenger) (other L1CrossDomainMessenger) of None \<Rightarrow> None | Some h \<Rightarrow>
     (case copySemverMap h (c L1ERC721Bridge) (other L1ERC721Bridge) of None \<Rightarrow> None | Some h \<Rightarrow>
     (case copySemverMap h (c L1StandardBridge) (other L1StandardBridge) of None \<Rightarrow> None | Some h \<Rightarrow>
     (case copySemverMap h (c L2OutputOracle) (other L2OutputOracle) of None \<Rightarrow> None | Some h \<Rightarrow>
     (case copySemverMap h (c OptimismMintableERC20Factory) (other OptimismMintableERC20Factory) of None \<Rightarrow> None | Some h \<Rightarrow>
     (case copySemverMap h (c OptimismPortal) (other OptimismPortal) of None \<Rightarrow> None | Some h \<Rightarrow>
      copySemverMap h (c SystemConfig) (other SystemConfig)))))))"

text \<open>
  The seven statements of \<open>Merge\<close> as one loop over \<open>roles\<close> (lemma
  \<open>Merge_eq_steps\<close> below shows it is \<open>Merge\<close>).
\<close>

fun Merge_steps :: "heap \<Rightarrow> ContractImplementations \<Rightarrow> ContractImplementations \<Rightarrow> Role list \<Rightarrow> heap option" where
  "Merge_steps h c other [] = Some h"
| "Merge_steps h c other (r # rs) =
     (case copySemverMap h (c r) (other r) of
        None \<Rightarrow> None
      | Some h' \<Rightarrow> Merge_steps h' c other rs)"

subsection \<open>Sort keys: semver precedence as a linear order\<close>

text \<open>
  The keys below are not part of the program. They say what \<open>Compare\<close> compares:
  lemma \<open>Compare_key\<close> shows that \<open>Compare v w\<close> is the three-way comparison of
  \<open>versionKey v\<close> and \<open>versionKey w\<close> in a linear order, so that precedence is
  reflexive, antisymmetric up to ties, and transitive.
\<close>

definition cmp3 :: "'a::linorder \<Rightarrow> 'a \<Rightarrow> int" where
  "cmp3 a b = (if a < b then - 1 else if a = b then 0 else 1)"

text \<open>A number without leading zeros: shorter is smaller, then digit by digit.\<close>

definition intKey :: "string \<Rightarrow> nat \<times> string" where
  "intKey x = (length x, x)"

text \<open>
  A pre-release identifier: numeric ones come first, ordered as numbers; the others
  follow in string order.
\<close>

definition identKey :: "string \<Rightarrow> bool \<times> nat \<times> string" where
  "identKey d = (\<not> isNum d, if isNum d then length d else 0, d)"

text \<open>
  The identifiers of a pre-release string as the loop of \<open>comparePrerelease\<close> reads
  them: one separator, then the characters up to the next dot.
\<close>

function idents :: "string \<Rightarrow> string list" where
  "idents [] = []"
| "idents (c # cs) = fst (nextIdent cs) # idents (snd (nextIdent cs))"
  by pat_completeness auto
termination
proof (relation "measure length")
  show "wf (measure length)" by simp
next
  fix c :: char and cs :: string
  have "length (dropWhile (\<lambda>c. c \<noteq> CHR ''.'') cs) \<le> length cs"
    by (rule length_dropWhile_le)
  then show "(snd (nextIdent cs), c # cs) \<in> measure length"
    by (simp add: nextIdent_def)
qed

text \<open>A version without pre-release is above every pre-release of it.\<close>

definition prereleaseKey :: "string \<Rightarrow> bool \<times> (bool \<times> nat \<times> string) list" where
  "prereleaseKey x = (x = [], map identKey (idents x))"

text \<open>An invalid version (\<open>None\<close>) is below every valid one.\<close>

definition versionKey ::
  "string \<Rightarrow> ((nat \<times> string) \<times> (nat \<times> string) \<times> (nat \<times> string)
      \<times> bool \<times> (bool \<times> nat \<times> string) list) option" where
  "versionKey v =
     map_option
       (\<lambda>p. (intKey (major p), intKey (minor p), intKey (patch p),
             prereleaseKey (prerelease p)))
       (parse v)"

text \<open>The key of \<open>ByVersion_Less\<close>: precedence, then the string itself.\<close>

definition sortKey ::
  "string \<Rightarrow> ((nat \<times> string) \<times> (nat \<times> string) \<times> (nat \<times> string)
      \<times> bool \<times> (bool \<times> nat \<times> string) list) option \<times> string" where
  "sortKey v = (versionKey v, v)"

subsection \<open>Example data\<close>

text \<open>
  Address sets on which the theorems below are evaluated. Addresses are written as
  numbers.
\<close>

definition both_spellings :: AddressSet where
  "both_spellings = DAList.update ''v1.0.0'' 2 (DAList.update ''1.0.0'' 1 DAList.empty)"

definition only_unprefixed :: AddressSet where
  "only_unprefixed = DAList.update ''1.0.0'' 1 DAList.empty"

definition only_prefixed :: AddressSet where
  "only_prefixed = DAList.update ''v1.0.0'' 2 DAList.empty"

definition stored_zero :: AddressSet where
  "stored_zero = DAList.update ''1.0.0'' 0 DAList.empty"

definition three_versions :: AddressSet where
  "three_versions =
     DAList.update ''3.0.0'' 3 (DAList.update ''2.0.0'' 2 (DAList.update ''1.0.0'' 1 DAList.empty))"

definition with_build_metadata :: AddressSet where
  "with_build_metadata =
     DAList.update ''1.0.0+b'' 2 (DAList.update ''1.0.0'' 1 DAList.empty)"

definition two_versions :: AddressSet where
  "two_versions = DAList.update ''2.0.0'' 2 (DAList.update ''1.0.0'' 1 DAList.empty)"

text \<open>
  A heap and a \<^verbatim>\<open>ContractImplementations\<close> for \<open>Resolve\<close>: every field points
  to map object \<open>0\<close>, which holds \<open>three_versions\<close>, but \<open>L2OutputOracle\<close>, which
  is \<^verbatim>\<open>nil\<close>. With \<open>failing_versions\<close>, \<open>L2OutputOracle\<close> fails (no entries),
  \<open>OptimismPortal\<close> would fail too (nothing at or above \<^verbatim>\<open>4.0.0\<close>), and the other
  roles resolve.
\<close>

definition registry_heap :: heap where
  "registry_heap = (\<lambda>x. if x = 0 then three_versions else DAList.empty)"

definition failing_impls :: ContractImplementations where
  "failing_impls = (\<lambda>r. if r = L2OutputOracle then None else Some 0)"

definition failing_versions :: ContractVersions where
  "failing_versions = (\<lambda>r. if r = OptimismPortal then ''4.0.0'' else ''1.0.0'')"

definition good_impls :: ContractImplementations where
  "good_impls = (\<lambda>r. Some 0)"

definition good_versions :: ContractVersions where
  "good_versions = (\<lambda>r. ''1.0.0'')"

text \<open>
  Heaps for \<open>Merge\<close>. In \<open>merge_heap\<close> map object \<open>0\<close> holds
  \<^verbatim>\<open>{1.0.0: 1, 2.0.0: 3}\<close> and map object \<open>7\<close> holds \<^verbatim>\<open>{1.0.0: 2}\<close>; the other
  objects are empty. The fields of \<open>merge_dst\<close> point to the objects \<open>0\<close> to \<open>6\<close>
  and those of \<open>merge_src\<close> to the objects \<open>7\<close> to \<open>13\<close>, in the order of the
  roles. \<open>shared_src\<close> is \<open>merge_src\<close> but for its field \<open>L1ERC721Bridge\<close>,
  which points to object \<open>0\<close>, the map of the field \<open>L1CrossDomainMessenger\<close> of
  \<open>merge_dst\<close>.
\<close>

fun roleIndex :: "Role \<Rightarrow> nat" where
  "roleIndex L1CrossDomainMessenger = 0"
| "roleIndex L1ERC721Bridge = 1"
| "roleIndex L1StandardBridge = 2"
| "roleIndex L2OutputOracle = 3"
| "roleIndex OptimismMintableERC20Factory = 4"
| "roleIndex OptimismPortal = 5"
| "roleIndex SystemConfig = 6"

definition merge_heap :: heap where
  "merge_heap =
     (\<lambda>x. if x = 0 then DAList.update ''2.0.0'' 3 (DAList.update ''1.0.0'' 1 DAList.empty)
          else if x = 7 then DAList.update ''1.0.0'' 2 DAList.empty
          else DAList.empty)"

definition merge_dst :: ContractImplementations where
  "merge_dst = (\<lambda>r. Some (roleIndex r))"

definition merge_src :: ContractImplementations where
  "merge_src = (\<lambda>r. Some (7 + roleIndex r))"

definition shared_src :: ContractImplementations where
  "shared_src = (\<lambda>r. if r = L1ERC721Bridge then Some 0 else Some (7 + roleIndex r))"

section \<open>Properties\<close>

subsection \<open>Semver precedence is a linear order on sort keys\<close>

lemma compareInt_key: "compareInt x y = cmp3 (intKey x) (intKey y)"
  by (auto simp: compareInt_def cmp3_def intKey_def)

lemma identKey_inj: "identKey dx = identKey dy \<longleftrightarrow> dx = dy"
  by (auto simp: identKey_def)

lemma compareIdent_key: "dx \<noteq> dy \<Longrightarrow> compareIdent dx dy = cmp3 (identKey dx) (identKey dy)"
  by (auto simp: compareIdent_def cmp3_def identKey_def Let_def)

lemma idents_Nil_iff: "idents x = [] \<longleftrightarrow> x = []"
  by (cases x) simp_all

lemma cmp3_Cons:
  "cmp3 (a # as) (b # bs) = (if a = b then cmp3 as bs else cmp3 a b)"
  by (auto simp: cmp3_def)

lemma snd_nextIdent_shape:
  "snd (nextIdent cs) = [] \<or> hd (snd (nextIdent cs)) = CHR ''.''"
  using hd_dropWhile [of "\<lambda>c. c \<noteq> CHR ''.''" cs] by (auto simp: nextIdent_def)

lemma nextIdent_append: "fst (nextIdent cs) @ snd (nextIdent cs) = cs"
  by (simp add: nextIdent_def)

lemma idents_inj:
  "idents x = idents y \<Longrightarrow> x = [] \<or> y = [] \<or> hd x = hd y \<Longrightarrow> x = y"
proof (induction x arbitrary: y rule: idents.induct)
  case 1
  then show ?case by (cases y) simp_all
next
  case (2 c cs)
  then obtain d ds where y: "y = d # ds" by (cases y) auto
  with "2.prems" have hd: "c = d"
    and f: "fst (nextIdent cs) = fst (nextIdent ds)"
    and i: "idents (snd (nextIdent cs)) = idents (snd (nextIdent ds))"
    by auto
  have "snd (nextIdent cs) = [] \<or> snd (nextIdent ds) = []
        \<or> hd (snd (nextIdent cs)) = hd (snd (nextIdent ds))"
    using snd_nextIdent_shape [of cs] snd_nextIdent_shape [of ds] by presburger
  with i have s: "snd (nextIdent cs) = snd (nextIdent ds)" by (rule "2.IH")
  have "cs = fst (nextIdent cs) @ snd (nextIdent cs)"
    by (simp only: nextIdent_append)
  also have "\<dots> = fst (nextIdent ds) @ snd (nextIdent ds)"
    by (simp only: f s)
  also have "\<dots> = ds"
    by (simp only: nextIdent_append)
  finally show ?case using hd y by simp
qed

lemma parsePrerelease_loop_hd:
  "parsePrerelease_loop done cur rest = Some (t, r) \<Longrightarrow> done \<noteq> [] \<Longrightarrow> t \<noteq> [] \<and> hd t = hd done"
  by (induction "done" cur rest rule: parsePrerelease_loop.induct) (auto split: if_splits)

lemma parsePrerelease_hd:
  "parsePrerelease v = Some (t, r) \<Longrightarrow> t \<noteq> [] \<and> hd t = CHR ''-''"
  by (auto simp: parsePrerelease_def split: list.splits if_splits dest: parsePrerelease_loop_hd)

lemma parse_prerelease_shape:
  "parse v = Some p \<Longrightarrow> prerelease p = [] \<or> hd (prerelease p) = CHR ''-''"
  by (auto simp: parse_def split: list.splits if_splits option.splits prod.splits
           dest: parsePrerelease_hd)

lemma loop_key:
  "idents x \<noteq> idents y \<Longrightarrow>
   comparePrerelease_loop x y = cmp3 (map identKey (idents x)) (map identKey (idents y))"
proof (induction x y rule: comparePrerelease_loop.induct)
  case (1 x y)
  show ?case
  proof (cases "x \<noteq> [] \<and> y \<noteq> []")
    case False
    with "1.prems" show ?thesis
      by (cases x; cases y) (auto simp: cmp3_def)
  next
    case True
    then obtain c cs d ds where xy: "x = c # cs" "y = d # ds"
      by (cases x; cases y) auto
    show ?thesis
    proof (cases "fst (nextIdent cs) = fst (nextIdent ds)")
      case same: True
      with "1.prems" xy have "idents (snd (nextIdent cs)) \<noteq> idents (snd (nextIdent ds))"
        by simp
      with "1.IH" True same xy
      have "comparePrerelease_loop (snd (nextIdent cs)) (snd (nextIdent ds)) =
            cmp3 (map identKey (idents (snd (nextIdent cs)))) (map identKey (idents (snd (nextIdent ds))))"
        by simp
      with same xy show ?thesis
        by (subst comparePrerelease_loop.simps) (simp add: cmp3_Cons)
    next
      case diff: False
      with xy show ?thesis
        by (subst comparePrerelease_loop.simps)
           (simp add: cmp3_Cons compareIdent_key identKey_inj)
    qed
  qed
qed

lemma comparePrerelease_key:
  assumes "x = [] \<or> hd x = CHR ''-''" and "y = [] \<or> hd y = CHR ''-''"
  shows "comparePrerelease x y = cmp3 (prereleaseKey x) (prereleaseKey y)"
proof (cases "x = y")
  case True
  then show ?thesis by (simp add: comparePrerelease_def cmp3_def)
next
  case ne: False
  show ?thesis
  proof (cases "x = []")
    case True
    with ne have "y \<noteq> []" by simp
    with True show ?thesis
      by (simp add: comparePrerelease_def cmp3_def prereleaseKey_def)
  next
    case xne: False
    show ?thesis
    proof (cases "y = []")
      case True
      with xne show ?thesis
        by (simp add: comparePrerelease_def cmp3_def prereleaseKey_def)
    next
      case yne: False
      from assms xne yne have "hd x = hd y" by (simp only: simp_thms)
      then have "x = [] \<or> y = [] \<or> hd x = hd y" by (simp only: simp_thms)
      then have "idents x = idents y \<Longrightarrow> x = y" by (rule idents_inj [rotated])
      with ne have "idents x \<noteq> idents y" by (rule contrapos_nn)
      then have "comparePrerelease_loop x y = cmp3 (map identKey (idents x)) (map identKey (idents y))"
        by (rule loop_key)
      with ne xne yne show ?thesis
        by (simp add: comparePrerelease_def cmp3_def prereleaseKey_def)
    qed
  qed
qed

lemma cmp3_prod:
  "cmp3 (a, b) (c, d) = (if cmp3 a c \<noteq> 0 then cmp3 a c else cmp3 b d)"
  by (auto simp: cmp3_def)

lemma cmp3_option:
  "cmp3 None None = 0" "cmp3 None (Some b) = - 1" "cmp3 (Some a) None = 1"
  "cmp3 (Some a) (Some b) = cmp3 a b"
  by (auto simp: cmp3_def)

lemma Compare_key: "Compare v w = cmp3 (versionKey v) (versionKey w)"
proof (cases "parse v")
  case None
  then show ?thesis
    by (cases "parse w") (simp_all add: Compare_def versionKey_def cmp3_option)
next
  case (Some pv)
  show ?thesis
  proof (cases "parse w")
    case None
    with Some show ?thesis
      by (simp add: Compare_def versionKey_def cmp3_option)
  next
    case (Some pw)
    have "comparePrerelease (prerelease pv) (prerelease pw) =
          cmp3 (prereleaseKey (prerelease pv)) (prereleaseKey (prerelease pw))"
      using \<open>parse v = Some pv\<close> Some
      by (intro comparePrerelease_key parse_prerelease_shape)
    with \<open>parse v = Some pv\<close> Some show ?thesis
      by (simp add: Compare_def versionKey_def cmp3_option cmp3_prod compareInt_key)
  qed
qed

lemma Compare_refl: "Compare v v = 0"
  by (simp add: Compare_key cmp3_def)

lemma Compare_eq_0_iff: "Compare v w = 0 \<longleftrightarrow> versionKey v = versionKey w"
  by (simp add: Compare_key cmp3_def)

lemma Compare_gt_0_iff: "Compare v w > 0 \<longleftrightarrow> versionKey w < versionKey v"
  by (auto simp: Compare_key cmp3_def)

lemma Compare_le_0_iff: "Compare v w \<le> 0 \<longleftrightarrow> versionKey v \<le> versionKey w"
  by (auto simp: Compare_key cmp3_def)

lemma Compare_lt_0_iff: "Compare v w < 0 \<longleftrightarrow> versionKey v < versionKey w"
  by (auto simp: Compare_key cmp3_def)

lemma ByVersion_Less_key: "ByVersion_Less v w \<longleftrightarrow> sortKey v < sortKey w"
  by (auto simp: ByVersion_Less_def sortKey_def Compare_key cmp3_def Let_def)

lemma sortKey_inj: "inj sortKey"
  by (rule injI) (simp add: sortKey_def)

lemma Sort_insert_insort: "Sort_insert v ws = insort_key sortKey v ws"
  by (induction ws) (auto simp: ByVersion_Less_key)

lemma Sort_sort_key: "Sort list = sort_key sortKey list"
  by (induction list) (simp_all add: Sort_def Sort_insert_insort)

text \<open>
  Any algorithm that returns the list's elements in an order in which no element is
  \<open>ByVersion_Less\<close> than an earlier one returns \<open>Sort list\<close>.
\<close>

lemma Sort_unique:
  assumes "mset ys = mset list"
    and "sorted_wrt (\<lambda>v w. \<not> ByVersion_Less w v) ys"
  shows "ys = Sort list"
proof -
  have "sorted (map sortKey ys)"
    using assms(2) by (simp add: sorted_map ByVersion_Less_key not_less sorted_wrt_iff_nth_less sorted_iff_nth_mono_less)
  with assms(1) show ?thesis
    unfolding Sort_sort_key
    by (intro sort_key_inj_key_eq [symmetric]) (auto intro: inj_on_subset [OF sortKey_inj])
qed

lemma set_Sort: "set (Sort list) = set list"
  by (simp add: Sort_sort_key)

lemma sorted_Sort: "sorted (map sortKey (Sort list))"
  by (simp add: Sort_sort_key)

subsection \<open>\<open>canonicalizeSemver\<close> and \<open>Get\<close>\<close>

lemma HasPrefix_v: "HasPrefix s ''v'' \<longleftrightarrow> (\<exists>t. s = CHR ''v'' # t)"
  by (cases s) (simp_all add: HasPrefix_def)

lemma canonicalizeSemver_v: "\<exists>t. canonicalizeSemver s = CHR ''v'' # t"
  by (simp add: canonicalizeSemver_def HasPrefix_v)

lemma canonicalizeSemver_idem:
  "canonicalizeSemver (canonicalizeSemver s) = canonicalizeSemver s"
  by (simp add: canonicalizeSemver_def HasPrefix_def)

lemma canonicalizeSemver_unprefixed:
  "\<not> HasPrefix s ''v'' \<Longrightarrow> canonicalizeSemver s = ''v'' @ s"
  by (simp add: canonicalizeSemver_def)

text \<open>\<open>Get\<close> reads the canonical key: first without its prefix, then with it.\<close>

lemma Get_canonical:
  "Get a key =
     (case DAList.lookup a (tl (canonicalizeSemver key)) of
        Some addr \<Rightarrow> addr
      | None \<Rightarrow>
          (case DAList.lookup a (canonicalizeSemver key) of
             Some addr \<Rightarrow> addr
           | None \<Rightarrow> 0))"
proof (cases "HasPrefix key ''v''")
  case True
  then obtain t where "key = CHR ''v'' # t" by (auto simp: HasPrefix_v)
  then show ?thesis
    by (simp add: Get_def canonicalizeSemver_def TrimPrefix_def HasPrefix_def
             cong: option.case_cong)
next
  case False
  then show ?thesis
    by (simp add: Get_def canonicalizeSemver_def TrimPrefix_def HasPrefix_def
             cong: option.case_cong)
qed

lemma Get_canonicalizeSemver: "Get a (canonicalizeSemver key) = Get a key"
  by (simp only: Get_canonical canonicalizeSemver_idem)

lemma canonicalizeSemver_Cons_v [simp]:
  "canonicalizeSemver (CHR ''v'' # s) = CHR ''v'' # s"
  by (simp add: canonicalizeSemver_def HasPrefix_def)

subsection \<open>Claims about \<open>Get\<close>\<close>

text \<open>
  C10: when a set stores a version both without and with the \<^verbatim>\<open>v\<close> prefix, under
  different addresses, \<open>Get\<close> returns the address stored under the un-prefixed key,
  whichever spelling is asked for.
\<close>

theorem C10_Get_prefers_unprefixed:
  assumes "\<not> HasPrefix s ''v''"
    and "DAList.lookup a s = Some x"
    and "DAList.lookup a (''v'' @ s) = Some y"
    and "x \<noteq> y"
  shows "Get a s = x \<and> Get a (''v'' @ s) = x"
  using assms
  by (simp add: Get_canonical canonicalizeSemver_unprefixed)

theorem C10_Get_prefers_unprefixed_witness:
  "\<not> HasPrefix ''1.0.0'' ''v''
   \<and> DAList.lookup both_spellings ''1.0.0'' = Some 1
   \<and> DAList.lookup both_spellings ''v1.0.0'' = Some 2
   \<and> Get both_spellings ''1.0.0'' = 1
   \<and> Get both_spellings ''v1.0.0'' = 1"
  using C10_Get_prefers_unprefixed [of "''1.0.0''" both_spellings 1 2]
  by (simp add: both_spellings_def HasPrefix_def)

text \<open>
  C7, as amended: for a version string \<open>s\<close> without the \<^verbatim>\<open>v\<close> prefix,
  \<open>Get s\<close> and \<open>Get (v + s)\<close> return the same address; an entry stored under the
  un-prefixed form is returned by both queries; an entry stored under the prefixed form
  is returned by both queries exactly when the un-prefixed form is not stored or holds
  the same address.
\<close>

theorem C7_Get_prefix_tolerant:
  assumes "\<not> HasPrefix s ''v''"
  shows "Get a s = Get a (''v'' @ s)
    \<and> (\<forall>x. DAList.lookup a s = Some x \<longrightarrow> Get a s = x)
    \<and> (\<forall>y. DAList.lookup a (''v'' @ s) = Some y \<longrightarrow>
          (Get a s = y \<longleftrightarrow> DAList.lookup a s = None \<or> DAList.lookup a s = Some y))"
  using assms
  by (auto simp: Get_canonical canonicalizeSemver_unprefixed
           split: option.splits)

theorem C7_Get_prefix_tolerant_witness:
  "\<not> HasPrefix ''1.0.0'' ''v''
   \<and> DAList.lookup only_unprefixed ''1.0.0'' = Some 1
   \<and> Get only_unprefixed ''1.0.0'' = 1 \<and> Get only_unprefixed ''v1.0.0'' = 1
   \<and> DAList.lookup only_prefixed ''1.0.0'' = None
   \<and> DAList.lookup only_prefixed ''v1.0.0'' = Some 2
   \<and> Get only_prefixed ''1.0.0'' = 2 \<and> Get only_prefixed ''v1.0.0'' = 2"
  using C7_Get_prefix_tolerant [of "''1.0.0''" only_unprefixed]
    C7_Get_prefix_tolerant [of "''1.0.0''" only_prefixed]
  by (simp add: only_unprefixed_def only_prefixed_def HasPrefix_def Get_def TrimPrefix_def)

text \<open>
  C7 as stated fails: in a set that stores a version under both spellings, the entry
  stored under the prefixed form is returned by neither query.
\<close>

theorem C7_counterexample:
  "DAList.lookup both_spellings ''v1.0.0'' = Some 2
   \<and> Get both_spellings ''1.0.0'' \<noteq> 2
   \<and> Get both_spellings ''v1.0.0'' \<noteq> 2"
  by (simp add: both_spellings_def Get_def HasPrefix_def TrimPrefix_def)

text \<open>
  C8, as amended: when the canonical key is stored under neither spelling, \<open>Get\<close>
  returns the zero address, and that address is its whole result: a set that stores the
  zero address under the key gives the same result, so the result does not tell an absent
  entry from a stored zero address.
\<close>

theorem C8_Get_absent_zero:
  assumes "DAList.lookup a (TrimPrefix (canonicalizeSemver key) ''v'') = None"
    and "DAList.lookup a (canonicalizeSemver key) = None"
  shows "Get a key = 0
    \<and> (\<forall>a'. DAList.lookup a' (TrimPrefix (canonicalizeSemver key) ''v'') = Some 0
           \<longrightarrow> Get a' key = Get a key)"
proof -
  obtain t where t: "canonicalizeSemver key = CHR ''v'' # t"
    using canonicalizeSemver_v by blast
  then have "TrimPrefix (canonicalizeSemver key) ''v'' = tl (canonicalizeSemver key)"
    by (simp add: TrimPrefix_def HasPrefix_def)
  with assms show ?thesis
    by (simp add: Get_canonical)
qed

theorem C8_Get_absent_zero_witness:
  "DAList.lookup DAList.empty (TrimPrefix (canonicalizeSemver ''1.0.0'') ''v'') = (None :: Address option)
   \<and> DAList.lookup DAList.empty (canonicalizeSemver ''1.0.0'') = (None :: Address option)
   \<and> Get DAList.empty ''1.0.0'' = 0
   \<and> DAList.lookup stored_zero (TrimPrefix (canonicalizeSemver ''1.0.0'') ''v'') = Some 0
   \<and> Get stored_zero ''1.0.0'' = Get DAList.empty ''1.0.0''"
proof -
  have s: "DAList.lookup stored_zero (TrimPrefix (canonicalizeSemver ''1.0.0'') ''v'') = Some 0"
    by (simp add: stored_zero_def canonicalizeSemver_def TrimPrefix_def HasPrefix_def)
  have "Get DAList.empty ''1.0.0'' = 0
    \<and> (\<forall>a'. DAList.lookup a' (TrimPrefix (canonicalizeSemver ''1.0.0'') ''v'') = Some 0
           \<longrightarrow> Get a' ''1.0.0'' = Get DAList.empty ''1.0.0'')"
    by (rule C8_Get_absent_zero) simp_all
  with s show ?thesis by simp
qed

text \<open>
  C8 as stated fails: \<open>Get\<close> has no \<^verbatim>\<open>found\<close> result. A set that stores the zero
  address under a key and a set without the key give the same result.
\<close>

theorem C8_counterexample:
  "DAList.lookup stored_zero ''1.0.0'' = Some 0
   \<and> DAList.lookup DAList.empty ''1.0.0'' = (None :: Address option)
   \<and> DAList.lookup DAList.empty ''v1.0.0'' = (None :: Address option)
   \<and> Get stored_zero ''1.0.0'' = Get DAList.empty ''1.0.0''"
  by (simp add: stored_zero_def Get_def HasPrefix_def TrimPrefix_def)

subsection \<open>The scan of \<open>resolve\<close>\<close>

lemma resolve_loop_below:
  "\<forall>k\<in>set ks. Compare k t < 0 \<Longrightarrow> resolve_loop a t ks out = out"
  by (induction ks) simp_all

text \<open>A tie ends the scan: the first key of the target's precedence is the result.\<close>

lemma resolve_loop_tie:
  "\<forall>k\<in>set pre. Compare k t \<noteq> 0 \<Longrightarrow> Compare k0 t = 0 \<Longrightarrow>
   resolve_loop a t (pre @ k0 # post) out = \<lparr>Version = k0, Address = Get a k0\<rparr>"
  by (induction pre arbitrary: out) (simp_all add: Let_def)

text \<open>Without a tie, the last key above the target is the result.\<close>

lemma resolve_loop_last_above:
  "\<forall>k\<in>set pre. Compare k t \<noteq> 0 \<Longrightarrow> Compare k0 t > 0 \<Longrightarrow>
   \<forall>k\<in>set post. Compare k t < 0 \<Longrightarrow>
   resolve_loop a t (pre @ k0 # post) out = \<lparr>Version = k0, Address = Get a k0\<rparr>"
  by (induction pre arbitrary: out) (simp_all add: Let_def resolve_loop_below)

lemma resolve_loop_result:
  "resolve_loop a t ks out = out
   \<or> (\<exists>k\<in>set ks. Compare k t \<ge> 0 \<and> resolve_loop a t ks out = \<lparr>Version = k, Address = Get a k\<rparr>)"
proof (induction ks arbitrary: out)
  case Nil
  then show ?case by simp
next
  case (Cons k ks)
  show ?case
  proof (cases "Compare k t \<ge> 0")
    case False
    with Cons [of out] show ?thesis by auto
  next
    case True
    show ?thesis
    proof (cases "Compare k t = 0")
      case True
      then show ?thesis by simp
    next
      case False
      with True Cons [of "\<lparr>Version = k, Address = Get a k\<rparr>"] show ?thesis
        by (auto simp: Let_def)
    qed
  qed
qed

lemma resolve_loop_found:
  "\<exists>k\<in>set ks. Compare k t \<ge> 0 \<Longrightarrow>
   \<exists>k\<in>set ks. Compare k t \<ge> 0 \<and> resolve_loop a t ks out = \<lparr>Version = k, Address = Get a k\<rparr>"
proof (induction ks arbitrary: out)
  case Nil
  then show ?case by simp
next
  case (Cons k ks)
  show ?case
  proof (cases "Compare k t \<ge> 0")
    case False
    with Cons.prems have "\<exists>k\<in>set ks. Compare k t \<ge> 0" by auto
    from Cons.IH [OF this, of out] False show ?thesis by auto
  next
    case True
    show ?thesis
    proof (cases "Compare k t = 0")
      case True
      then show ?thesis by simp
    next
      case False
      from resolve_loop_result [of a t ks "\<lparr>Version = k, Address = Get a k\<rparr>"]
      show ?thesis using True False by (auto simp: Let_def)
    qed
  qed
qed

subsection \<open>\<open>Versions\<close>\<close>

lemma set_Versions: "set (Versions a) = canonicalizeSemver ` set (Keys a)"
  by (simp add: Versions_def set_Sort)

lemma Versions_Nil_iff: "Versions a = [] \<longleftrightarrow> Keys a = []"
  using set_Versions [of a] by (metis image_is_empty set_empty)

lemma Versions_not_zero:
  "k \<in> set (Versions a) \<Longrightarrow> \<lparr>Version = k, Address = x\<rparr> \<noteq> VersionedContract_zero"
proof -
  assume "k \<in> set (Versions a)"
  then obtain s where "k = canonicalizeSemver s" by (auto simp: set_Versions)
  with canonicalizeSemver_v [of s] have "k \<noteq> []" by auto
  then show ?thesis by (simp add: VersionedContract_zero_def)
qed

subsection \<open>Claims about \<open>resolve\<close>\<close>

lemma resolve_empty:
  "Keys a = [] \<Longrightarrow>
   resolve a t = (VersionedContract_zero, Some (errorString ''no implementations found''))"
  by (simp add: resolve_def Versions_Nil_iff)

lemma resolve_below:
  assumes "Keys a \<noteq> []"
    and "\<forall>k\<in>set (Keys a). Compare (canonicalizeSemver k) (canonicalizeSemver t) < 0"
  shows "resolve a t = (VersionedContract_zero, Some (errorString ''cannot resolve semver''))"
proof -
  from assms(2) have "\<forall>k\<in>set (Versions a). Compare k (canonicalizeSemver t) < 0"
    by (simp add: set_Versions)
  then have "resolve_loop a (canonicalizeSemver t) (Versions a) VersionedContract_zero
      = VersionedContract_zero"
    by (rule resolve_loop_below)
  with assms(1) show ?thesis
    by (simp add: resolve_def Versions_Nil_iff)
qed

lemma resolve_found:
  assumes "\<exists>k\<in>set (Keys a). Compare (canonicalizeSemver k) (canonicalizeSemver t) \<ge> 0"
  shows "\<exists>k\<in>set (Versions a). Compare k (canonicalizeSemver t) \<ge> 0
           \<and> resolve a t = (\<lparr>Version = k, Address = Get a k\<rparr>, None)"
proof -
  from assms have ex: "\<exists>k\<in>set (Versions a). Compare k (canonicalizeSemver t) \<ge> 0"
    by (simp add: set_Versions)
  then have ne: "Versions a \<noteq> []" by auto
  from resolve_loop_found [OF ex, of a VersionedContract_zero]
  obtain k where k: "k \<in> set (Versions a)" "Compare k (canonicalizeSemver t) \<ge> 0"
    "resolve_loop a (canonicalizeSemver t) (Versions a) VersionedContract_zero
       = \<lparr>Version = k, Address = Get a k\<rparr>"
    by blast
  from k(1) have "\<lparr>Version = k, Address = Get a k\<rparr> \<noteq> VersionedContract_zero"
    by (rule Versions_not_zero)
  with k ne have "resolve a t = (\<lparr>Version = k, Address = Get a k\<rparr>, None)"
    by (simp add: resolve_def)
  with k show ?thesis by blast
qed

text \<open>
  C4: \<open>resolve\<close> returns an error exactly when the set has no entry (the error
  \<^verbatim>\<open>no implementations found\<close>) or has entries none of which is at or above the
  canonical target (the error \<^verbatim>\<open>cannot resolve semver\<close>); otherwise the error is
  \<^verbatim>\<open>nil\<close>.
\<close>

theorem C4_resolve_error:
  "snd (resolve a t) =
     (if Keys a = [] then Some (errorString ''no implementations found'')
      else if \<exists>k\<in>set (Keys a). Compare (canonicalizeSemver k) (canonicalizeSemver t) \<ge> 0
        then None
      else Some (errorString ''cannot resolve semver''))"
proof (cases "Keys a = []")
  case True
  then show ?thesis by (simp add: resolve_empty)
next
  case ne: False
  show ?thesis
  proof (cases "\<exists>k\<in>set (Keys a). Compare (canonicalizeSemver k) (canonicalizeSemver t) \<ge> 0")
    case True
    from resolve_found [OF this] have "snd (resolve a t) = None" by auto
    with ne True show ?thesis by simp
  next
    case False
    then have "\<forall>k\<in>set (Keys a). Compare (canonicalizeSemver k) (canonicalizeSemver t) < 0"
      by (simp add: not_le)
    from resolve_below [OF ne this] ne False show ?thesis by simp
  qed
qed

theorem C4_resolve_error_witness:
  "snd (resolve DAList.empty ''1.0.0'') = Some (errorString ''no implementations found'')
   \<and> snd (resolve three_versions ''4.0.0'') = Some (errorString ''cannot resolve semver'')
   \<and> snd (resolve three_versions ''1.5.0'') = None"
proof -
  have e: "Keys (DAList.empty :: AddressSet) = []"
    by code_simp
  have n: "Keys three_versions \<noteq> []"
    by code_simp
  have b: "\<not> (\<exists>k\<in>set (Keys three_versions).
              Compare (canonicalizeSemver k) (canonicalizeSemver ''4.0.0'') \<ge> 0)"
    by code_simp
  have f: "\<exists>k\<in>set (Keys three_versions).
              Compare (canonicalizeSemver k) (canonicalizeSemver ''1.5.0'') \<ge> 0"
    by code_simp
  show ?thesis
    using C4_resolve_error [of DAList.empty "''1.0.0''"]
      C4_resolve_error [of three_versions "''4.0.0''"]
      C4_resolve_error [of three_versions "''1.5.0''"]
    by (simp only: e n b f if_True if_False simp_thms)
qed

text \<open>
  C9: when \<open>resolve\<close> succeeds, the version it returns starts with \<^verbatim>\<open>v\<close>: it is
  the canonical form of a stored key, whether or not the key was stored with the prefix.
\<close>

theorem C9_resolve_version_canonical:
  assumes "snd (resolve a t) = None"
  shows "HasPrefix (Version (fst (resolve a t))) ''v''
    \<and> (\<exists>k\<in>set (Keys a). Version (fst (resolve a t)) = canonicalizeSemver k)"
proof -
  from assms have ne: "Keys a \<noteq> []"
    using resolve_empty [of a t] by auto
  have "\<not> (\<forall>k\<in>set (Keys a). Compare (canonicalizeSemver k) (canonicalizeSemver t) < 0)"
  proof
    assume "\<forall>k\<in>set (Keys a). Compare (canonicalizeSemver k) (canonicalizeSemver t) < 0"
    from resolve_below [OF ne this] assms show False by simp
  qed
  then have "\<exists>k\<in>set (Keys a). Compare (canonicalizeSemver k) (canonicalizeSemver t) \<ge> 0"
    by (simp add: not_less)
  from resolve_found [OF this] obtain m where m: "m \<in> set (Versions a)"
    "resolve a t = (\<lparr>Version = m, Address = Get a m\<rparr>, None)"
    by blast
  from m(1) obtain k where k: "k \<in> set (Keys a)" "m = canonicalizeSemver k"
    by (auto simp: set_Versions)
  from k(2) canonicalizeSemver_v [of k] have "HasPrefix m ''v''"
    by (auto simp: HasPrefix_v)
  with m(2) k show ?thesis by auto
qed

theorem C9_resolve_version_canonical_witness:
  "snd (resolve only_unprefixed ''1.0.0'') = None
   \<and> Keys only_unprefixed = [''1.0.0'']
   \<and> Version (fst (resolve only_unprefixed ''1.0.0'')) = ''v1.0.0''
   \<and> HasPrefix (Version (fst (resolve only_unprefixed ''1.0.0''))) ''v''"
proof -
  have r: "resolve only_unprefixed ''1.0.0'' = (\<lparr>Version = ''v1.0.0'', Address = 1\<rparr>, None)"
    by code_simp
  have k: "Keys only_unprefixed = [''1.0.0'']"
    by code_simp
  from r have "snd (resolve only_unprefixed ''1.0.0'') = None" by simp
  from C9_resolve_version_canonical [OF this] r k show ?thesis
    by (simp add: canonicalizeSemver_def HasPrefix_def)
qed

subsection \<open>The scan over a sorted list\<close>

lemma sorted_Versions: "sorted (map sortKey (Versions a))"
  by (simp add: Versions_def sorted_Sort)

lemma sorted_split:
  assumes "sorted (map f (pre @ k0 # post))"
  shows "\<forall>x\<in>set pre. f x \<le> f k0" and "\<forall>y\<in>set post. f k0 \<le> f y"
  using assms by (auto simp: sorted_append)

lemma sortKey_le_version: "sortKey v \<le> sortKey w \<Longrightarrow> versionKey v \<le> versionKey w"
  by (auto simp: sortKey_def)

lemma sortKey_le_string:
  "sortKey v \<le> sortKey w \<Longrightarrow> versionKey v = versionKey w \<Longrightarrow> v \<le> w"
  by (auto simp: sortKey_def)

text \<open>
  With a tie in the set, \<open>resolve\<close> returns the tying version that is least in string
  order.
\<close>

lemma resolve_tie:
  assumes "\<exists>k\<in>set (Keys a). Compare (canonicalizeSemver k) (canonicalizeSemver t) = 0"
  shows "\<exists>m\<in>set (Versions a). Compare m (canonicalizeSemver t) = 0
           \<and> (\<forall>m'\<in>set (Versions a). Compare m' (canonicalizeSemver t) = 0 \<longrightarrow> m \<le> m')
           \<and> resolve a t = (\<lparr>Version = m, Address = Get a m\<rparr>, None)"
proof -
  let ?t = "canonicalizeSemver t"
  from assms have "\<exists>k\<in>set (Versions a). Compare k ?t = 0"
    by (simp add: set_Versions)
  then obtain pre k0 post where split: "Versions a = pre @ k0 # post"
    and k0: "Compare k0 ?t = 0" and pre: "\<forall>k\<in>set pre. Compare k ?t \<noteq> 0"
    using split_list_first_prop [of "Versions a" "\<lambda>k. Compare k ?t = 0"] by blast
  have mem: "k0 \<in> set (Versions a)" by (simp add: split)
  have loop: "resolve_loop a ?t (Versions a) VersionedContract_zero
      = \<lparr>Version = k0, Address = Get a k0\<rparr>"
    unfolding split using pre k0 by (rule resolve_loop_tie)
  have "\<lparr>Version = k0, Address = Get a k0\<rparr> \<noteq> VersionedContract_zero"
    using mem by (rule Versions_not_zero)
  with loop split have res: "resolve a t = (\<lparr>Version = k0, Address = Get a k0\<rparr>, None)"
    by (simp add: resolve_def)
  have least: "k0 \<le> m'" if m': "m' \<in> set (Versions a)" "Compare m' ?t = 0" for m'
  proof -
    from m' pre split have "m' = k0 \<or> m' \<in> set post" by auto
    moreover from sorted_Versions [of a] have "\<forall>y\<in>set post. sortKey k0 \<le> sortKey y"
      unfolding split by (rule sorted_split)
    ultimately have "sortKey k0 \<le> sortKey m'" by auto
    moreover from k0 m'(2) have "versionKey k0 = versionKey m'"
      by (simp add: Compare_eq_0_iff)
    ultimately show ?thesis by (rule sortKey_le_string)
  qed
  from mem k0 least res show ?thesis by blast
qed

text \<open>
  Without a tie, and with a version above the target, \<open>resolve\<close> returns the last
  element of the sorted list, the highest version of the set.
\<close>

lemma resolve_above:
  assumes "\<forall>k\<in>set (Keys a). Compare (canonicalizeSemver k) (canonicalizeSemver t) \<noteq> 0"
    and "\<exists>k\<in>set (Keys a). Compare (canonicalizeSemver k) (canonicalizeSemver t) \<ge> 0"
  shows "\<exists>m\<in>set (Versions a). (\<forall>m'\<in>set (Versions a). sortKey m' \<le> sortKey m)
           \<and> resolve a t = (\<lparr>Version = m, Address = Get a m\<rparr>, None)"
proof -
  let ?t = "canonicalizeSemver t"
  from assms(1) have no_tie: "\<forall>k\<in>set (Versions a). Compare k ?t \<noteq> 0"
    by (simp add: set_Versions)
  from assms have "\<exists>k\<in>set (Versions a). Compare k ?t > 0"
    by (auto simp: set_Versions order_less_le)
  then obtain pre k0 post where split: "Versions a = pre @ k0 # post"
    and k0: "Compare k0 ?t > 0" and post: "\<forall>k\<in>set post. \<not> Compare k ?t > 0"
    using split_list_last_prop [of "Versions a" "\<lambda>k. Compare k ?t > 0"] by blast
  have mem: "k0 \<in> set (Versions a)" by (simp add: split)
  from sorted_Versions [of a] have le_pre: "\<forall>x\<in>set pre. sortKey x \<le> sortKey k0"
    and le_post: "\<forall>y\<in>set post. sortKey k0 \<le> sortKey y"
    unfolding split by (rule sorted_split)+
  have "post = []"
  proof (rule ccontr)
    assume "post \<noteq> []"
    then obtain y where y: "y \<in> set post" by (cases post) auto
    with post no_tie split have "Compare y ?t < 0" by (auto simp: not_less order_le_less)
    then have "versionKey y < versionKey ?t" by (simp add: Compare_lt_0_iff)
    moreover from k0 have "versionKey ?t < versionKey k0" by (simp add: Compare_gt_0_iff)
    moreover from le_post y have "versionKey k0 \<le> versionKey y"
      by (auto dest: sortKey_le_version)
    ultimately show False by simp
  qed
  with split le_pre have top: "\<forall>m'\<in>set (Versions a). sortKey m' \<le> sortKey k0"
    by auto
  from no_tie split have "\<forall>k\<in>set pre. Compare k ?t \<noteq> 0" by simp
  moreover note k0
  moreover from \<open>post = []\<close> have "\<forall>k\<in>set post. Compare k ?t < 0" by simp
  ultimately have loop: "resolve_loop a ?t (pre @ k0 # post) VersionedContract_zero
      = \<lparr>Version = k0, Address = Get a k0\<rparr>"
    by (rule resolve_loop_last_above)
  have "\<lparr>Version = k0, Address = Get a k0\<rparr> \<noteq> VersionedContract_zero"
    using mem by (rule Versions_not_zero)
  with loop split have "resolve a t = (\<lparr>Version = k0, Address = Get a k0\<rparr>, None)"
    by (simp add: resolve_def)
  with mem top show ?thesis by blast
qed

text \<open>
  C1, as amended. For every non-empty set and every target, with the stored versions and
  the target in canonical form:
  \<^item> if the target is stored and no stored version of another spelling has the target's
    precedence, \<open>resolve\<close> returns the target, with the address \<open>Get\<close> returns for it
    (the address under the un-prefixed key when both spellings are stored, see C10);
  \<^item> whenever some stored version has the target's precedence (\<open>Compare\<close> is \<open>0\<close>:
    build metadata and an omitted minor or patch number do not count, and all invalid
    strings tie), \<open>resolve\<close> returns the one of them that is least in string order,
    with the address \<open>Get\<close> returns for it;
  \<^item> otherwise, if some stored version is above the target, \<open>resolve\<close> returns the
    highest stored version, with the address \<open>Get\<close> returns for it.
\<close>

theorem C1_resolve_exact_or_highest:
  assumes "Keys a \<noteq> []"
  shows
    "(canonicalizeSemver t \<in> set (Versions a)
        \<and> (\<forall>m\<in>set (Versions a). Compare m (canonicalizeSemver t) = 0 \<longrightarrow> m = canonicalizeSemver t)
      \<longrightarrow> resolve a t = (\<lparr>Version = canonicalizeSemver t, Address = Get a t\<rparr>, None))
   \<and> ((\<exists>m\<in>set (Versions a). Compare m (canonicalizeSemver t) = 0)
      \<longrightarrow> (\<exists>m\<in>set (Versions a). Compare m (canonicalizeSemver t) = 0
             \<and> (\<forall>m'\<in>set (Versions a). Compare m' (canonicalizeSemver t) = 0 \<longrightarrow> m \<le> m')
             \<and> resolve a t = (\<lparr>Version = m, Address = Get a m\<rparr>, None)))
   \<and> ((\<forall>m\<in>set (Versions a). Compare m (canonicalizeSemver t) \<noteq> 0)
        \<and> (\<exists>m\<in>set (Versions a). Compare m (canonicalizeSemver t) \<ge> 0)
      \<longrightarrow> (\<exists>m\<in>set (Versions a). (\<forall>m'\<in>set (Versions a). Compare m' m \<le> 0)
             \<and> resolve a t = (\<lparr>Version = m, Address = Get a m\<rparr>, None)))"
proof (intro conjI impI)
  let ?t = "canonicalizeSemver t"
  assume exact: "?t \<in> set (Versions a)
    \<and> (\<forall>m\<in>set (Versions a). Compare m ?t = 0 \<longrightarrow> m = ?t)"
  then have "?t \<in> canonicalizeSemver ` set (Keys a)"
    by (simp only: set_Versions)
  then obtain k where k: "k \<in> set (Keys a)" and tk: "?t = canonicalizeSemver k"
    by (rule imageE)
  have "Compare (canonicalizeSemver k) ?t = 0"
    by (simp only: tk [symmetric] Compare_refl)
  with k have "\<exists>k\<in>set (Keys a). Compare (canonicalizeSemver k) ?t = 0"
    by (rule bexI [rotated])
  from resolve_tie [OF this] obtain m where m: "m \<in> set (Versions a)" "Compare m ?t = 0"
    "resolve a t = (\<lparr>Version = m, Address = Get a m\<rparr>, None)"
    by blast
  from exact m(1,2) have "m = ?t" by blast
  with m(3) show "resolve a t = (\<lparr>Version = ?t, Address = Get a t\<rparr>, None)"
    by (simp add: Get_canonicalizeSemver)
next
  let ?t = "canonicalizeSemver t"
  assume "\<exists>m\<in>set (Versions a). Compare m ?t = 0"
  then have "\<exists>k\<in>set (Keys a). Compare (canonicalizeSemver k) ?t = 0"
    by (simp add: set_Versions)
  then show "\<exists>m\<in>set (Versions a). Compare m ?t = 0
      \<and> (\<forall>m'\<in>set (Versions a). Compare m' ?t = 0 \<longrightarrow> m \<le> m')
      \<and> resolve a t = (\<lparr>Version = m, Address = Get a m\<rparr>, None)"
    by (rule resolve_tie)
next
  let ?t = "canonicalizeSemver t"
  assume above: "(\<forall>m\<in>set (Versions a). Compare m ?t \<noteq> 0)
    \<and> (\<exists>m\<in>set (Versions a). Compare m ?t \<ge> 0)"
  then have "\<forall>k\<in>set (Keys a). Compare (canonicalizeSemver k) ?t \<noteq> 0"
    and "\<exists>k\<in>set (Keys a). Compare (canonicalizeSemver k) ?t \<ge> 0"
    by (simp_all add: set_Versions)
  from resolve_above [OF this] obtain m where m: "m \<in> set (Versions a)"
    "\<forall>m'\<in>set (Versions a). sortKey m' \<le> sortKey m"
    "resolve a t = (\<lparr>Version = m, Address = Get a m\<rparr>, None)"
    by blast
  from m(2) have "\<forall>m'\<in>set (Versions a). Compare m' m \<le> 0"
    by (auto simp: Compare_le_0_iff dest: sortKey_le_version)
  with m(1,3) show "\<exists>m\<in>set (Versions a). (\<forall>m'\<in>set (Versions a). Compare m' m \<le> 0)
      \<and> resolve a t = (\<lparr>Version = m, Address = Get a m\<rparr>, None)"
    by blast
qed

theorem C1_resolve_exact_or_highest_witness:
  "Keys three_versions \<noteq> []
   \<and> canonicalizeSemver ''2.0.0'' \<in> set (Versions three_versions)
   \<and> resolve three_versions ''2.0.0'' = (\<lparr>Version = ''v2.0.0'', Address = 2\<rparr>, None)
   \<and> Versions three_versions = [''v1.0.0'', ''v2.0.0'', ''v3.0.0'']
   \<and> resolve three_versions ''1.5.0'' = (\<lparr>Version = ''v3.0.0'', Address = 3\<rparr>, None)
   \<and> Keys with_build_metadata \<noteq> []
   \<and> Versions with_build_metadata = [''v1.0.0'', ''v1.0.0+b'']
   \<and> Compare ''v1.0.0'' (canonicalizeSemver ''1.0.0+b'') = 0
   \<and> resolve with_build_metadata ''1.0.0+b'' = (\<lparr>Version = ''v1.0.0'', Address = 1\<rparr>, None)"
proof -
  have ne: "Keys three_versions \<noteq> []"
    by code_simp
  have vs: "Versions three_versions = [''v1.0.0'', ''v2.0.0'', ''v3.0.0'']"
    by code_simp
  have t2: "canonicalizeSemver ''2.0.0'' = ''v2.0.0''"
    by code_simp
  have exact: "canonicalizeSemver ''2.0.0'' \<in> set (Versions three_versions)
    \<and> (\<forall>m\<in>set (Versions three_versions).
          Compare m (canonicalizeSemver ''2.0.0'') = 0 \<longrightarrow> m = canonicalizeSemver ''2.0.0'')"
    by code_simp
  have g2: "Get three_versions ''2.0.0'' = 2"
    by code_simp
  have above: "(\<forall>m\<in>set (Versions three_versions). Compare m (canonicalizeSemver ''1.5.0'') \<noteq> 0)
    \<and> (\<exists>m\<in>set (Versions three_versions). Compare m (canonicalizeSemver ''1.5.0'') \<ge> 0)"
    by code_simp
  have top: "\<not> Compare ''v3.0.0'' ''v1.0.0'' \<le> 0" "\<not> Compare ''v3.0.0'' ''v2.0.0'' \<le> 0"
    by code_simp+
  have g3: "Get three_versions ''v3.0.0'' = 3"
    by code_simp
  have ne': "Keys with_build_metadata \<noteq> []"
    by code_simp
  have vs': "Versions with_build_metadata = [''v1.0.0'', ''v1.0.0+b'']"
    by code_simp
  have tie: "Compare ''v1.0.0'' (canonicalizeSemver ''1.0.0+b'') = 0"
    "Compare ''v1.0.0+b'' (canonicalizeSemver ''1.0.0+b'') = 0"
    by code_simp+
  have least: "\<not> ''v1.0.0+b'' \<le> ''v1.0.0''"
    by simp
  have g1: "Get with_build_metadata ''v1.0.0'' = 1"
    by code_simp
  note C1 = C1_resolve_exact_or_highest [OF ne]
  from C1 [of "''2.0.0''"] exact
  have r2: "resolve three_versions ''2.0.0''
      = (\<lparr>Version = canonicalizeSemver ''2.0.0'', Address = Get three_versions ''2.0.0''\<rparr>, None)"
    by blast
  from C1 [of "''1.5.0''"] above
  obtain m where m: "m \<in> set (Versions three_versions)"
    "\<forall>m'\<in>set (Versions three_versions). Compare m' m \<le> 0"
    "resolve three_versions ''1.5.0'' = (\<lparr>Version = m, Address = Get three_versions m\<rparr>, None)"
    by blast
  from m(1,2) top have "m = ''v3.0.0''"
    unfolding vs by auto
  with m(3) g3 have r3: "resolve three_versions ''1.5.0''
      = (\<lparr>Version = ''v3.0.0'', Address = 3\<rparr>, None)"
    by simp
  from tie(1) have "\<exists>m\<in>set (Versions with_build_metadata).
      Compare m (canonicalizeSemver ''1.0.0+b'') = 0"
    unfolding vs' by simp
  with C1_resolve_exact_or_highest [OF ne', of "''1.0.0+b''"]
  obtain n where n: "n \<in> set (Versions with_build_metadata)"
    "\<forall>m'\<in>set (Versions with_build_metadata).
       Compare m' (canonicalizeSemver ''1.0.0+b'') = 0 \<longrightarrow> n \<le> m'"
    "resolve with_build_metadata ''1.0.0+b''
       = (\<lparr>Version = n, Address = Get with_build_metadata n\<rparr>, None)"
    by blast
  from n(2) tie(1) have "n \<le> ''v1.0.0''"
    unfolding vs' by simp
  with n(1) least have "n = ''v1.0.0''"
    unfolding vs' by auto
  with n(3) g1 have r1: "resolve with_build_metadata ''1.0.0+b''
      = (\<lparr>Version = ''v1.0.0'', Address = 1\<rparr>, None)"
    by simp
  from ne exact vs r2 r3 t2 g2 ne' vs' tie(1) r1 show ?thesis by simp
qed

text \<open>
  C1 as stated fails on both of its branches. In a set that stores a version under both
  spellings, the entry stored under \<^verbatim>\<open>v1.0.0\<close> has the canonical form of the target
  \<^verbatim>\<open>1.0.0\<close>, and \<open>resolve\<close> returns the address of the other entry. In a set that
  stores \<^verbatim>\<open>1.0.0\<close> and \<^verbatim>\<open>1.0.0+b\<close>, the target \<^verbatim>\<open>1.0.0+b\<close> is stored, and
  \<open>resolve\<close> returns \<^verbatim>\<open>v1.0.0\<close>. And for the target \<^verbatim>\<open>1.0\<close>, which no key of
  \<open>two_versions\<close> is equal to, the highest stored version at or above the target is
  \<^verbatim>\<open>v2.0.0\<close>, and \<open>resolve\<close> returns \<^verbatim>\<open>v1.0.0\<close>.
\<close>

theorem C1_counterexample:
  "DAList.lookup both_spellings ''v1.0.0'' = Some 2
   \<and> canonicalizeSemver ''v1.0.0'' = canonicalizeSemver ''1.0.0''
   \<and> resolve both_spellings ''1.0.0'' = (\<lparr>Version = ''v1.0.0'', Address = 1\<rparr>, None)
   \<and> DAList.lookup with_build_metadata ''1.0.0+b'' = Some 2
   \<and> canonicalizeSemver ''1.0.0+b'' = ''v1.0.0+b''
   \<and> resolve with_build_metadata ''1.0.0+b'' = (\<lparr>Version = ''v1.0.0'', Address = 1\<rparr>, None)
   \<and> map canonicalizeSemver (Keys two_versions) = [''v1.0.0'', ''v2.0.0'']
   \<and> canonicalizeSemver ''1.0'' = ''v1.0''
   \<and> Compare ''v2.0.0'' ''v1.0'' = 1
   \<and> resolve two_versions ''1.0'' = (\<lparr>Version = ''v1.0.0'', Address = 1\<rparr>, None)"
  by code_simp

lemma lookup_entry:
  "(k, v) \<in> set (DAList.impl_of a) \<Longrightarrow> DAList.lookup a k = Some v"
  by (simp add: DAList.lookup.rep_eq)

lemma distinct_Keys: "distinct (Keys a)"
  by (simp add: Keys_def)

text \<open>The sorted versions depend on the keys of the set only, not on their order.\<close>

lemma Versions_eqI:
  assumes "set (Keys a) = set ks" and "distinct ks"
    and "sorted_wrt (\<lambda>v w. \<not> ByVersion_Less w v) vs"
    and "mset vs = mset (map canonicalizeSemver ks)"
  shows "Versions a = vs"
proof -
  from assms(1,2) have "mset (Keys a) = mset ks"
    by (simp add: set_eq_iff_mset_eq_distinct [symmetric] distinct_Keys)
  then have "mset (map canonicalizeSemver (Keys a)) = mset (map canonicalizeSemver ks)"
    by simp
  with assms(4) have "mset vs = mset (map canonicalizeSemver (Keys a))" by simp
  from Sort_unique [OF this assms(3)] show ?thesis
    by (simp add: Versions_def)
qed

text \<open>
  C2, as amended: on a set whose entries are \<^verbatim>\<open>1.0.0: A\<close>, \<^verbatim>\<open>2.0.0: B\<close> and
  \<^verbatim>\<open>3.0.0: C\<close>, \<open>resolve\<close> with target \<^verbatim>\<open>1.5.0\<close> returns \<^verbatim>\<open>(v3.0.0, C)\<close>, the
  highest version, and \<open>resolve\<close> with target \<^verbatim>\<open>0.5.0\<close> returns \<^verbatim>\<open>(v3.0.0, C)\<close>
  too.
\<close>

theorem C2_resolve_three_versions:
  assumes "set (DAList.impl_of a) = {(''1.0.0'', A), (''2.0.0'', B), (''3.0.0'', C)}"
  shows "resolve a ''1.5.0'' = (\<lparr>Version = ''v3.0.0'', Address = C\<rparr>, None)
    \<and> resolve a ''0.5.0'' = (\<lparr>Version = ''v3.0.0'', Address = C\<rparr>, None)"
proof -
  have "set (Keys a) = fst ` set (DAList.impl_of a)"
    by (simp add: Keys_def)
  with assms have keys: "set (Keys a) = set [''1.0.0'', ''2.0.0'', ''3.0.0'']"
    by simp
  have "sorted_wrt (\<lambda>v w. \<not> ByVersion_Less w v) [''v1.0.0'', ''v2.0.0'', ''v3.0.0'']"
    by code_simp
  moreover have "mset [''v1.0.0'', ''v2.0.0'', ''v3.0.0'']
      = mset (map canonicalizeSemver [''1.0.0'', ''2.0.0'', ''3.0.0''])"
    by (simp add: canonicalizeSemver_def HasPrefix_def)
  ultimately have vs: "Versions a = [''v1.0.0'', ''v2.0.0'', ''v3.0.0'']"
    using keys by (intro Versions_eqI [where ks = "[''1.0.0'', ''2.0.0'', ''3.0.0'']"]) simp_all
  from assms have "DAList.lookup a ''3.0.0'' = Some C"
    by (intro lookup_entry) simp
  then have get: "Get a ''v3.0.0'' = C"
    by (simp add: Get_def HasPrefix_def TrimPrefix_def)
  have c15: "Compare ''v1.0.0'' ''v1.5.0'' = - 1" "Compare ''v2.0.0'' ''v1.5.0'' = 1"
    "Compare ''v3.0.0'' ''v1.5.0'' = 1"
    by code_simp+
  have c05: "Compare ''v1.0.0'' ''v0.5.0'' = 1" "Compare ''v2.0.0'' ''v0.5.0'' = 1"
    "Compare ''v3.0.0'' ''v0.5.0'' = 1"
    by code_simp+
  have t: "canonicalizeSemver ''1.5.0'' = ''v1.5.0''" "canonicalizeSemver ''0.5.0'' = ''v0.5.0''"
    by (simp_all add: canonicalizeSemver_def HasPrefix_def)
  show ?thesis
    by (simp add: resolve_def vs t c15 c05 get VersionedContract_zero_def)
qed

theorem C2_resolve_three_versions_witness:
  "set (DAList.impl_of three_versions) = {(''1.0.0'', 1), (''2.0.0'', 2), (''3.0.0'', 3)}
   \<and> resolve three_versions ''1.5.0'' = (\<lparr>Version = ''v3.0.0'', Address = 3\<rparr>, None)
   \<and> resolve three_versions ''0.5.0'' = (\<lparr>Version = ''v3.0.0'', Address = 3\<rparr>, None)"
proof -
  have e: "set (DAList.impl_of three_versions) = {(''1.0.0'', 1), (''2.0.0'', 2), (''3.0.0'', 3)}"
    by (auto simp: three_versions_def DAList.update.rep_eq DAList.empty.rep_eq)
  from C2_resolve_three_versions [OF e] e show ?thesis by simp
qed

text \<open>
  C2 as stated fails: with target \<^verbatim>\<open>1.5.0\<close> the scan goes on after \<^verbatim>\<open>v2.0.0\<close> and
  ends on \<^verbatim>\<open>v3.0.0\<close>; the result is not the entry of \<^verbatim>\<open>2.0.0\<close>, under either
  spelling of its version.
\<close>

theorem C2_counterexample:
  "resolve three_versions ''1.5.0'' = (\<lparr>Version = ''v3.0.0'', Address = 3\<rparr>, None)
   \<and> fst (resolve three_versions ''1.5.0'') \<noteq> \<lparr>Version = ''2.0.0'', Address = 2\<rparr>
   \<and> fst (resolve three_versions ''1.5.0'') \<noteq> \<lparr>Version = ''v2.0.0'', Address = 2\<rparr>"
  by code_simp

subsection \<open>\<open>Resolve\<close>: the seven statements in order\<close>

lemma Resolve_eq_steps:
  "Resolve h c versions = Resolve_steps h c versions roles (\<lambda>_. VersionedContract_zero)"
  by (simp add: Resolve_def roles_def split: prod.splits option.splits)

lemma distinct_roles: "distinct roles"
  by (simp add: roles_def)

lemma set_roles: "set roles = UNIV"
proof -
  have "r \<in> set roles" for r by (cases r) (simp_all add: roles_def)
  then show ?thesis by auto
qed

text \<open>An error of \<open>resolve\<close> is one of its two errors and comes with the zero value.\<close>

lemma resolve_error:
  assumes "snd (resolve a t) = Some e"
  shows "fst (resolve a t) = VersionedContract_zero"
    and "e = errorString ''no implementations found'' \<or> e = errorString ''cannot resolve semver''"
  using assms by (auto simp: resolve_def Let_def split: if_splits)

lemma Resolve_steps_ok:
  "\<forall>r\<in>set rs. snd (resolve (deref h (c r)) (v r)) = None \<Longrightarrow>
   Resolve_steps h c v rs impl =
     (\<lambda>r. if r \<in> set rs then fst (resolve (deref h (c r)) (v r)) else impl r, None)"
proof (induction rs arbitrary: impl)
  case Nil
  then show ?case by simp
next
  case (Cons r rs)
  from Cons.prems have "\<forall>r\<in>set rs. snd (resolve (deref h (c r)) (v r)) = None"
    and "snd (resolve (deref h (c r)) (v r)) = None"
    by simp_all
  then have "Resolve_steps h c v (r # rs) impl =
      (\<lambda>r'. if r' \<in> set rs then fst (resolve (deref h (c r')) (v r'))
            else (impl(r := fst (resolve (deref h (c r)) (v r)))) r', None)"
    by (simp add: Cons.IH)
  also have "(\<lambda>r'. if r' \<in> set rs then fst (resolve (deref h (c r')) (v r'))
            else (impl(r := fst (resolve (deref h (c r)) (v r)))) r') =
      (\<lambda>r'. if r' \<in> set (r # rs) then fst (resolve (deref h (c r')) (v r')) else impl r')"
    by (rule ext) simp
  finally show ?case .
qed

lemma Resolve_steps_fail:
  assumes "\<forall>r'\<in>set pre. snd (resolve (deref h (c r')) (v r')) = None"
    and "snd (resolve (deref h (c r)) (v r)) = Some e"
  shows "Resolve_steps h c v (pre @ r # post) impl =
     (\<lambda>r'. if r' = r then VersionedContract_zero
           else if r' \<in> set pre then fst (resolve (deref h (c r')) (v r'))
           else impl r',
      Some (Errorf_w (roleName r @ '': '') e))"
  using assms(1)
proof (induction pre arbitrary: impl)
  case Nil
  from assms(2) resolve_error(1) [OF assms(2)] show ?case
    by (auto simp: fun_eq_iff)
next
  case (Cons p pre)
  from Cons.prems have "\<forall>r'\<in>set pre. snd (resolve (deref h (c r')) (v r')) = None"
    and "snd (resolve (deref h (c p)) (v p)) = None"
    by simp_all
  then have "Resolve_steps h c v ((p # pre) @ r # post) impl =
      (\<lambda>r'. if r' = r then VersionedContract_zero
            else if r' \<in> set pre then fst (resolve (deref h (c r')) (v r'))
            else (impl(p := fst (resolve (deref h (c p)) (v p)))) r',
       Some (Errorf_w (roleName r @ '': '') e))"
    by (simp add: Cons.IH)
  also have "(\<lambda>r'. if r' = r then VersionedContract_zero
            else if r' \<in> set pre then fst (resolve (deref h (c r')) (v r'))
            else (impl(p := fst (resolve (deref h (c p)) (v p)))) r') =
      (\<lambda>r'. if r' = r then VersionedContract_zero
            else if r' \<in> set (p # pre) then fst (resolve (deref h (c r')) (v r'))
            else impl r')"
    by (rule ext) simp
  finally show ?case .
qed

lemma Resolve_ok:
  assumes "\<forall>r. snd (resolve (deref h (c r)) (v r)) = None"
  shows "Resolve h c v = (\<lambda>r. fst (resolve (deref h (c r)) (v r)), None)"
proof -
  from assms have "\<forall>r\<in>set roles. snd (resolve (deref h (c r)) (v r)) = None" by simp
  then show ?thesis
    unfolding Resolve_eq_steps by (simp add: Resolve_steps_ok set_roles)
qed

lemma Resolve_fail:
  assumes "roles = pre @ r # post"
    and "\<forall>r'\<in>set pre. snd (resolve (deref h (c r')) (v r')) = None"
    and "snd (resolve (deref h (c r)) (v r)) = Some e"
  shows "Resolve h c v =
     (\<lambda>r'. if r' \<in> set pre then fst (resolve (deref h (c r')) (v r')) else VersionedContract_zero,
      Some (wrapError (roleName r @ '': '' @ Error e) e))"
proof -
  have "distinct (pre @ r # post)"
    using distinct_roles by (simp only: assms(1))
  then have "r \<notin> set pre" by simp
  then have "(\<lambda>r'. if r' = r then VersionedContract_zero
            else if r' \<in> set pre then fst (resolve (deref h (c r')) (v r'))
            else VersionedContract_zero) =
      (\<lambda>r'. if r' \<in> set pre then fst (resolve (deref h (c r')) (v r')) else VersionedContract_zero)"
    by (intro ext) auto
  with Resolve_steps_fail [OF assms(2,3), of post "\<lambda>_. VersionedContract_zero"]
  show ?thesis
    unfolding Resolve_eq_steps assms(1) by (simp add: Errorf_w_def)
qed

lemma first_failure:
  assumes "snd (resolve (deref h (c r0)) (v r0)) \<noteq> None"
  obtains pre r post e where "roles = pre @ r # post"
    and "\<forall>r'\<in>set pre. snd (resolve (deref h (c r')) (v r')) = None"
    and "snd (resolve (deref h (c r)) (v r)) = Some e"
proof -
  from assms set_roles have "\<exists>r\<in>set roles. snd (resolve (deref h (c r)) (v r)) \<noteq> None"
    by auto
  then obtain pre r post where "roles = pre @ r # post"
    and "snd (resolve (deref h (c r)) (v r)) \<noteq> None"
    and "\<forall>r'\<in>set pre. \<not> snd (resolve (deref h (c r')) (v r')) \<noteq> None"
    using split_list_first_prop [of roles "\<lambda>r. snd (resolve (deref h (c r)) (v r)) \<noteq> None"]
    by blast
  then show ?thesis using that by auto
qed

text \<open>
  C5: \<open>Resolve\<close> goes through the seven roles in the order of \<open>roles\<close>
  (\<open>Resolve_eq_steps\<close>), from \<open>L1CrossDomainMessenger\<close> to \<open>SystemConfig\<close>. When a role fails
  and every role before it resolves, the error of \<open>Resolve\<close> is the error of that role
  (one of the two errors of \<open>resolve\<close>), wrapped, under a message that starts with the
  role's name; and the result is the same for every registry and every target that agree
  with the given ones up to the failing role: what the later roles hold, and whether
  they would fail, has no effect.
\<close>

theorem C5_Resolve_first_failure:
  assumes "roles = pre @ r # post"
    and "\<forall>r'\<in>set pre. snd (resolve (deref h (c r')) (v r')) = None"
    and "snd (resolve (deref h (c r)) (v r)) = Some e"
  shows "roles = [L1CrossDomainMessenger, L1ERC721Bridge, L1StandardBridge, L2OutputOracle,
                  OptimismMintableERC20Factory, OptimismPortal, SystemConfig]
    \<and> snd (Resolve h c v) = Some (wrapError (roleName r @ '': '' @ Error e) e)
    \<and> (e = errorString ''no implementations found'' \<or> e = errorString ''cannot resolve semver'')
    \<and> (\<forall>h' c' v'.
          (\<forall>r'\<in>set (pre @ [r]). deref h' (c' r') = deref h (c r') \<and> v' r' = v r')
          \<longrightarrow> Resolve h' c' v' = Resolve h c v)"
proof (intro conjI allI impI)
  show "roles = [L1CrossDomainMessenger, L1ERC721Bridge, L1StandardBridge, L2OutputOracle,
                 OptimismMintableERC20Factory, OptimismPortal, SystemConfig]"
    by (simp only: roles_def)
next
  show "snd (Resolve h c v) = Some (wrapError (roleName r @ '': '' @ Error e) e)"
    by (simp add: Resolve_fail [OF assms])
next
  show "e = errorString ''no implementations found'' \<or> e = errorString ''cannot resolve semver''"
    using assms(3) by (rule resolve_error(2))
next
  fix h' c' v'
  assume same: "\<forall>r'\<in>set (pre @ [r]). deref h' (c' r') = deref h (c r') \<and> v' r' = v r'"
  with assms(2,3) have pre': "\<forall>r'\<in>set pre. snd (resolve (deref h' (c' r')) (v' r')) = None"
    and r': "snd (resolve (deref h' (c' r)) (v' r)) = Some e"
    by simp_all
  from same have "(\<lambda>r'. if r' \<in> set pre then fst (resolve (deref h' (c' r')) (v' r'))
                       else VersionedContract_zero) =
      (\<lambda>r'. if r' \<in> set pre then fst (resolve (deref h (c r')) (v r'))
            else VersionedContract_zero)"
    by (intro ext) simp
  then show "Resolve h' c' v' = Resolve h c v"
    by (simp add: Resolve_fail [OF assms] Resolve_fail [OF assms(1) pre' r'])
qed

theorem C5_Resolve_first_failure_witness:
  "roles = [L1CrossDomainMessenger, L1ERC721Bridge, L1StandardBridge] @ L2OutputOracle
      # [OptimismMintableERC20Factory, OptimismPortal, SystemConfig]
   \<and> snd (resolve (deref registry_heap (failing_impls L2OutputOracle)) (failing_versions L2OutputOracle))
       = Some (errorString ''no implementations found'')
   \<and> snd (resolve (deref registry_heap (failing_impls OptimismPortal)) (failing_versions OptimismPortal))
       = Some (errorString ''cannot resolve semver'')
   \<and> snd (Resolve registry_heap failing_impls failing_versions)
       = Some (wrapError ''L2OutputOracle: no implementations found''
                 (errorString ''no implementations found''))"
proof -
  have ro: "roles = [L1CrossDomainMessenger, L1ERC721Bridge, L1StandardBridge] @ L2OutputOracle
      # [OptimismMintableERC20Factory, OptimismPortal, SystemConfig]"
    by (simp add: roles_def)
  have ok: "\<forall>r'\<in>set [L1CrossDomainMessenger, L1ERC721Bridge, L1StandardBridge].
      snd (resolve (deref registry_heap (failing_impls r')) (failing_versions r')) = None"
    by code_simp
  have bad: "snd (resolve (deref registry_heap (failing_impls L2OutputOracle))
      (failing_versions L2OutputOracle)) = Some (errorString ''no implementations found'')"
    by code_simp
  have later: "snd (resolve (deref registry_heap (failing_impls OptimismPortal))
      (failing_versions OptimismPortal)) = Some (errorString ''cannot resolve semver'')"
    by code_simp
  have "snd (Resolve registry_heap failing_impls failing_versions)
      = Some (wrapError (roleName L2OutputOracle @ '': ''
                @ Error (errorString ''no implementations found''))
                (errorString ''no implementations found''))"
    by (rule C5_Resolve_first_failure [OF ro ok bad, THEN conjunct2, THEN conjunct1])
  then have "snd (Resolve registry_heap failing_impls failing_versions)
      = Some (wrapError ''L2OutputOracle: no implementations found''
                (errorString ''no implementations found''))"
    by simp
  with ro bad later show ?thesis by (simp only: simp_thms)
qed

text \<open>
  C3, as amended: \<open>Resolve\<close> returns a \<^verbatim>\<open>nil\<close> error exactly when every one of the
  seven roles resolves, and then every field of the \<^verbatim>\<open>ImplementationList\<close> holds the
  result of its role. When a role fails, \<open>Resolve\<close> returns, together with the error,
  an \<^verbatim>\<open>ImplementationList\<close> that holds the results of the roles resolved before the
  first failing one, and the zero value for that role and every later one.
\<close>

theorem C3_Resolve_partial_results:
  "(snd (Resolve h c v) = None \<longleftrightarrow> (\<forall>r. snd (resolve (deref h (c r)) (v r)) = None))
   \<and> (snd (Resolve h c v) = None
        \<longrightarrow> (\<forall>r. fst (Resolve h c v) r = fst (resolve (deref h (c r)) (v r))))
   \<and> (\<forall>pre r post.
        roles = pre @ r # post
        \<and> (\<forall>r'\<in>set pre. snd (resolve (deref h (c r')) (v r')) = None)
        \<and> snd (resolve (deref h (c r)) (v r)) \<noteq> None
        \<longrightarrow> snd (Resolve h c v) \<noteq> None
            \<and> (\<forall>r'\<in>set pre. fst (Resolve h c v) r' = fst (resolve (deref h (c r')) (v r')))
            \<and> (\<forall>r'\<in>set (r # post). fst (Resolve h c v) r' = VersionedContract_zero))"
proof -
  have iff: "snd (Resolve h c v) = None \<longleftrightarrow> (\<forall>r. snd (resolve (deref h (c r)) (v r)) = None)"
  proof
    assume nil: "snd (Resolve h c v) = None"
    show "\<forall>r. snd (resolve (deref h (c r)) (v r)) = None"
    proof (rule ccontr)
      assume "\<not> (\<forall>r. snd (resolve (deref h (c r)) (v r)) = None)"
      then obtain r0 where "snd (resolve (deref h (c r0)) (v r0)) \<noteq> None" by blast
      then obtain pre r post e where "roles = pre @ r # post"
        and "\<forall>r'\<in>set pre. snd (resolve (deref h (c r')) (v r')) = None"
        and "snd (resolve (deref h (c r)) (v r)) = Some e"
        by (rule first_failure)
      from Resolve_fail [OF this] nil show False by simp
    qed
  next
    assume "\<forall>r. snd (resolve (deref h (c r)) (v r)) = None"
    then show "snd (Resolve h c v) = None" by (simp add: Resolve_ok)
  qed
  have all: "\<forall>r. fst (Resolve h c v) r = fst (resolve (deref h (c r)) (v r))"
    if "snd (Resolve h c v) = None"
  proof -
    from that iff have "\<forall>r. snd (resolve (deref h (c r)) (v r)) = None" by simp
    then show ?thesis by (simp add: Resolve_ok)
  qed
  have part: "snd (Resolve h c v) \<noteq> None
      \<and> (\<forall>r'\<in>set pre. fst (Resolve h c v) r' = fst (resolve (deref h (c r')) (v r')))
      \<and> (\<forall>r'\<in>set (r # post). fst (Resolve h c v) r' = VersionedContract_zero)"
    if ro: "roles = pre @ r # post"
      and pre: "\<forall>r'\<in>set pre. snd (resolve (deref h (c r')) (v r')) = None"
      and bad: "snd (resolve (deref h (c r)) (v r)) \<noteq> None"
    for pre r post
  proof -
    from bad obtain e where e: "snd (resolve (deref h (c r)) (v r)) = Some e" by auto
    have "distinct (pre @ r # post)"
      using distinct_roles by (simp only: ro)
    then have "\<forall>r'\<in>set (r # post). r' \<notin> set pre" by auto
    then show ?thesis
      by (simp add: Resolve_fail [OF ro pre e])
  qed
  from iff all part show ?thesis by blast
qed

theorem C3_Resolve_partial_results_witness:
  "snd (Resolve registry_heap good_impls good_versions) = None
   \<and> fst (Resolve registry_heap good_impls good_versions) SystemConfig
       = \<lparr>Version = ''v1.0.0'', Address = 1\<rparr>
   \<and> snd (Resolve registry_heap failing_impls failing_versions) \<noteq> None
   \<and> fst (Resolve registry_heap failing_impls failing_versions) L1StandardBridge
       = \<lparr>Version = ''v1.0.0'', Address = 1\<rparr>
   \<and> fst (Resolve registry_heap failing_impls failing_versions) L2OutputOracle
       = VersionedContract_zero
   \<and> fst (Resolve registry_heap failing_impls failing_versions) SystemConfig
       = VersionedContract_zero"
proof -
  have "snd (resolve (deref registry_heap (Some 0)) ''1.0.0'') = None"
    by code_simp
  then have good: "\<forall>r. snd (resolve (deref registry_heap (good_impls r)) (good_versions r)) = None"
    by (simp add: good_impls_def good_versions_def)
  have g7: "fst (resolve (deref registry_heap (good_impls SystemConfig)) (good_versions SystemConfig))
      = \<lparr>Version = ''v1.0.0'', Address = 1\<rparr>"
    by code_simp
  have ro: "roles = [L1CrossDomainMessenger, L1ERC721Bridge, L1StandardBridge] @ L2OutputOracle
      # [OptimismMintableERC20Factory, OptimismPortal, SystemConfig]"
    by (simp add: roles_def)
  have ok: "\<forall>r'\<in>set [L1CrossDomainMessenger, L1ERC721Bridge, L1StandardBridge].
      snd (resolve (deref registry_heap (failing_impls r')) (failing_versions r')) = None"
    by code_simp
  have bad: "snd (resolve (deref registry_heap (failing_impls L2OutputOracle))
      (failing_versions L2OutputOracle)) \<noteq> None"
    by code_simp
  have f3: "fst (resolve (deref registry_heap (failing_impls L1StandardBridge))
      (failing_versions L1StandardBridge)) = \<lparr>Version = ''v1.0.0'', Address = 1\<rparr>"
    by code_simp
  note C3 = C3_Resolve_partial_results
  from C3 [of registry_heap good_impls good_versions] good
  have 1: "snd (Resolve registry_heap good_impls good_versions) = None"
    by blast
  with C3 [of registry_heap good_impls good_versions] g7
  have 2: "fst (Resolve registry_heap good_impls good_versions) SystemConfig
      = \<lparr>Version = ''v1.0.0'', Address = 1\<rparr>"
    by simp
  from C3 [of registry_heap failing_impls failing_versions] ro ok bad
  have 3: "snd (Resolve registry_heap failing_impls failing_versions) \<noteq> None
    \<and> (\<forall>r'\<in>set [L1CrossDomainMessenger, L1ERC721Bridge, L1StandardBridge].
          fst (Resolve registry_heap failing_impls failing_versions) r'
          = fst (resolve (deref registry_heap (failing_impls r')) (failing_versions r')))
    \<and> (\<forall>r'\<in>set (L2OutputOracle # [OptimismMintableERC20Factory, OptimismPortal, SystemConfig]).
          fst (Resolve registry_heap failing_impls failing_versions) r' = VersionedContract_zero)"
    by blast
  from 1 2 3 f3 show ?thesis by simp
qed

text \<open>
  C3 as stated fails: \<open>L2OutputOracle\<close> fails, and the \<^verbatim>\<open>ImplementationList\<close>
  returned with the error holds the results of the three roles resolved before it.
\<close>

theorem C3_counterexample:
  "snd (Resolve registry_heap failing_impls failing_versions)
     = Some (wrapError ''L2OutputOracle: no implementations found''
               (errorString ''no implementations found''))
   \<and> fst (Resolve registry_heap failing_impls failing_versions) L1CrossDomainMessenger
       = \<lparr>Version = ''v1.0.0'', Address = 1\<rparr>
   \<and> fst (Resolve registry_heap failing_impls failing_versions) L1ERC721Bridge
       = \<lparr>Version = ''v1.0.0'', Address = 1\<rparr>
   \<and> fst (Resolve registry_heap failing_impls failing_versions) L1StandardBridge
       = \<lparr>Version = ''v1.0.0'', Address = 1\<rparr>"
  by code_simp

subsection \<open>\<open>copySemverMap\<close> and \<open>Merge\<close>\<close>

lemma Merge_eq_steps: "Merge h c other = Merge_steps h c other roles"
  by (simp add: Merge_def roles_def split: option.splits)

text \<open>What \<^verbatim>\<open>maps.Copy\<close> leaves in the destination.\<close>

lemma lookup_fold_update:
  "distinct (map fst xs) \<Longrightarrow>
   DAList.lookup (fold (\<lambda>(k, v). DAList.update k v) xs dst) k =
     (case map_of xs k of Some v \<Rightarrow> Some v | None \<Rightarrow> DAList.lookup dst k)"
proof (induction xs arbitrary: dst)
  case Nil
  then show ?case by simp
next
  case (Cons x xs)
  obtain k0 v0 where x: "x = (k0, v0)" by (cases x)
  from Cons.prems x have d: "distinct (map fst xs)" and n: "map_of xs k0 = None"
    by (auto simp: map_of_eq_None_iff)
  show ?case
  proof (cases "k = k0")
    case True
    then have k0: "k0 = k" by simp
    from n have "map_of xs k = None" by (simp only: k0)
    then show ?thesis
      unfolding x k0 by (simp add: Cons.IH [OF d])
  next
    case False
    with x show ?thesis by (simp add: Cons.IH [OF d] split: option.splits)
  qed
qed

lemma lookup_copy:
  "DAList.lookup (fold (\<lambda>(k, v). DAList.update k v) (DAList.impl_of src) dst) k =
     (case DAList.lookup src k of Some v \<Rightarrow> Some v | None \<Rightarrow> DAList.lookup dst k)"
  by (simp add: lookup_fold_update DAList.lookup.rep_eq [of src])

text \<open>Copying a map into itself changes nothing.\<close>

lemma update_same: "DAList.lookup m k = Some v \<Longrightarrow> DAList.update k v m = m"
  by (simp add: alist_eq_iff DAList.update.rep_eq DAList.lookup.rep_eq update_triv)

lemma fold_update_same:
  "\<forall>(k, v)\<in>set xs. DAList.lookup m k = Some v \<Longrightarrow>
   fold (\<lambda>(k, v). DAList.update k v) xs m = m"
  by (induction xs) (auto simp: update_same)

lemma copy_self: "fold (\<lambda>(k, v). DAList.update k v) (DAList.impl_of m) m = m"
  by (rule fold_update_same) (auto simp: DAList.lookup.rep_eq)

text \<open>
  The heap after the statements of \<open>Merge\<close> for the roles \<open>rs\<close>, when the maps of
  the receiver are \<open>d r\<close>, those of the argument are \<open>s r\<close>, and no map of the
  receiver is shared with another role.
\<close>

lemma Merge_steps_heap:
  assumes "\<forall>r. c r = Some (d r)" and "\<forall>r. other r = Some (s r)"
    and "\<forall>r r'. r \<noteq> r' \<longrightarrow> d r \<noteq> d r' \<and> d r \<noteq> s r'"
    and "distinct rs"
  shows "\<exists>h'. Merge_steps h c other rs = Some h'
    \<and> (\<forall>r\<in>set rs. h' (d r) =
          fold (\<lambda>(k, v). DAList.update k v) (DAList.impl_of (h (s r))) (h (d r)))
    \<and> (\<forall>x. x \<notin> d ` set rs \<longrightarrow> h' x = h x)"
  using assms(4)
proof (induction rs arbitrary: h)
  case Nil
  then show ?case by simp
next
  case (Cons r rs)
  let ?copy = "\<lambda>h r. fold (\<lambda>(k, v). DAList.update k v) (DAList.impl_of (h (s r))) (h (d r))"
  let ?h1 = "h(d r := ?copy h r)"
  from Cons.prems have dist: "distinct rs" and notin: "r \<notin> set rs" by simp_all
  from assms(1,2) have step: "copySemverMap h (c r) (other r) = Some ?h1"
    by (simp add: copySemverMap_def deref_def)
  from Cons.IH [OF dist, of ?h1] obtain h' where h': "Merge_steps ?h1 c other rs = Some h'"
    and copied: "\<forall>r'\<in>set rs. h' (d r') = ?copy ?h1 r'"
    and frame: "\<forall>x. x \<notin> d ` set rs \<longrightarrow> h' x = ?h1 x"
    by blast
  have "Merge_steps h c other (r # rs) = Some h'"
    by (simp add: step h')
  moreover have "h' (d r') = ?copy h r'" if "r' \<in> set (r # rs)" for r'
  proof (cases "r' = r")
    case True
    have "d r \<notin> d ` set rs"
    proof
      assume "d r \<in> d ` set rs"
      then obtain r'' where mem: "r'' \<in> set rs" and eq: "d r = d r''" by (rule imageE)
      from mem notin have "r \<noteq> r''" by auto
      with assms(3) have "d r \<noteq> d r''" by simp
      with eq show False by simp
    qed
    with frame True show ?thesis by simp
  next
    case False
    with that have "r' \<in> set rs" by simp
    moreover from False assms(3) have "d r \<noteq> s r'" "d r \<noteq> d r'" by auto
    ultimately show ?thesis using copied by simp
  qed
  moreover have "h' x = h x" if "x \<notin> d ` set (r # rs)" for x
  proof -
    from that have "x \<notin> d ` set rs" and "x \<noteq> d r" by auto
    with frame show ?thesis by simp
  qed
  ultimately show ?case by (intro exI [of _ h']) simp
qed

text \<open>
  C6, as amended: for every \<open>dst\<close> (the receiver \<open>c\<close>) and \<open>src\<close> (the argument
  \<open>other\<close>) with all seven fields non-nil, in which no map of \<open>dst\<close> is also the map
  of another field of \<open>dst\<close> or of a field of \<open>src\<close> for another role, \<open>Merge\<close>
  returns; after it each set of \<open>dst\<close> maps a key to the address of \<open>src\<close> when
  \<open>src\<close> has the key and to the address it had before otherwise (so no key is
  removed), and every set of \<open>src\<close> is as it was.
\<close>

theorem C6_Merge_separate_maps:
  assumes "\<forall>r. c r \<noteq> None \<and> other r \<noteq> None"
    and "\<forall>r r'. r \<noteq> r' \<longrightarrow> c r \<noteq> c r' \<and> c r \<noteq> other r'"
  shows "\<exists>h'. Merge h c other = Some h'
    \<and> (\<forall>r k. DAList.lookup (deref h' (c r)) k =
          (case DAList.lookup (deref h (other r)) k of
             Some v \<Rightarrow> Some v
           | None \<Rightarrow> DAList.lookup (deref h (c r)) k))
    \<and> (\<forall>r. deref h' (other r) = deref h (other r))"
proof -
  define d where "d r = the (c r)" for r
  define s where "s r = the (other r)" for r
  from assms(1) have c: "\<forall>r. c r = Some (d r)" and o: "\<forall>r. other r = Some (s r)"
    by (simp_all add: d_def s_def)
  from assms(2) have sep: "\<forall>r r'. r \<noteq> r' \<longrightarrow> d r \<noteq> d r' \<and> d r \<noteq> s r'"
    by (simp add: c o)
  let ?copy = "\<lambda>r. fold (\<lambda>(k, v). DAList.update k v) (DAList.impl_of (h (s r))) (h (d r))"
  from Merge_steps_heap [OF c o sep distinct_roles, of h]
  obtain h' where h': "Merge h c other = Some h'"
    and copied: "\<forall>r. h' (d r) = ?copy r"
    and frame: "\<forall>x. x \<notin> range d \<longrightarrow> h' x = h x"
    unfolding Merge_eq_steps set_roles by auto
  have dst: "DAList.lookup (deref h' (c r)) k =
      (case DAList.lookup (deref h (other r)) k of
         Some v \<Rightarrow> Some v
       | None \<Rightarrow> DAList.lookup (deref h (c r)) k)" for r k
    by (simp add: c o deref_def copied lookup_copy cong: option.case_cong)
  have src: "deref h' (other r) = deref h (other r)" for r
  proof (cases "s r \<in> range d")
    case False
    with frame show ?thesis by (simp add: o deref_def)
  next
    case True
    then obtain r' where r': "s r = d r'" by auto
    have "r' = r"
    proof (rule ccontr)
      assume "r' \<noteq> r"
      with sep have "d r' \<noteq> s r" by simp
      with r' show False by simp
    qed
    with r' have eq: "s r = d r" by simp
    from copied have "h' (d r) = ?copy r" by simp
    also have "\<dots> = h (d r)" by (simp only: eq copy_self)
    finally show ?thesis by (simp add: o deref_def eq)
  qed
  from h' dst src show ?thesis by simp
qed

lemma roleIndex_inj: "roleIndex r = roleIndex r' \<longleftrightarrow> r = r'"
  by (cases r; cases r') simp_all

lemma roleIndex_less: "roleIndex r < 7"
  by (cases r) simp_all

theorem C6_Merge_separate_maps_witness:
  "(\<forall>r. merge_dst r \<noteq> None \<and> merge_src r \<noteq> None)
   \<and> DAList.lookup (deref merge_heap (merge_dst L1CrossDomainMessenger)) ''1.0.0'' = Some 1
   \<and> DAList.lookup (deref merge_heap (merge_dst L1CrossDomainMessenger)) ''2.0.0'' = Some 3
   \<and> DAList.lookup (deref merge_heap (merge_src L1CrossDomainMessenger)) ''1.0.0'' = Some 2
   \<and> DAList.lookup (deref merge_heap (merge_src L1CrossDomainMessenger)) ''2.0.0'' = None
   \<and> (\<exists>h'. Merge merge_heap merge_dst merge_src = Some h'
         \<and> DAList.lookup (deref h' (merge_dst L1CrossDomainMessenger)) ''1.0.0'' = Some 2
         \<and> DAList.lookup (deref h' (merge_dst L1CrossDomainMessenger)) ''2.0.0'' = Some 3
         \<and> deref h' (merge_src L1CrossDomainMessenger)
             = deref merge_heap (merge_src L1CrossDomainMessenger))"
proof -
  have nonnil: "\<forall>r. merge_dst r \<noteq> None \<and> merge_src r \<noteq> None"
    by (simp add: merge_dst_def merge_src_def)
  have "roleIndex r \<noteq> 7 + roleIndex r'" for r r'
    using roleIndex_less [of r] by simp
  then have sep: "\<forall>r r'. r \<noteq> r' \<longrightarrow> merge_dst r \<noteq> merge_dst r' \<and> merge_dst r \<noteq> merge_src r'"
    by (simp add: merge_dst_def merge_src_def roleIndex_inj)
  have before: "DAList.lookup (deref merge_heap (merge_dst L1CrossDomainMessenger)) ''1.0.0'' = Some 1"
    "DAList.lookup (deref merge_heap (merge_dst L1CrossDomainMessenger)) ''2.0.0'' = Some 3"
    "DAList.lookup (deref merge_heap (merge_src L1CrossDomainMessenger)) ''1.0.0'' = Some 2"
    "DAList.lookup (deref merge_heap (merge_src L1CrossDomainMessenger)) ''2.0.0'' = None"
    by code_simp+
  from C6_Merge_separate_maps [OF nonnil sep, of merge_heap]
  obtain h' where m: "Merge merge_heap merge_dst merge_src = Some h'"
    and l: "\<forall>r k. DAList.lookup (deref h' (merge_dst r)) k =
          (case DAList.lookup (deref merge_heap (merge_src r)) k of
             Some v \<Rightarrow> Some v
           | None \<Rightarrow> DAList.lookup (deref merge_heap (merge_dst r)) k)"
    and u: "\<forall>r. deref h' (merge_src r) = deref merge_heap (merge_src r)"
    by (elim exE conjE) (rule that, assumption+)
  have a1: "DAList.lookup (deref h' (merge_dst L1CrossDomainMessenger)) ''1.0.0'' = Some 2"
    using l [rule_format, of L1CrossDomainMessenger "''1.0.0''"] by (simp only: before option.case)
  have a2: "DAList.lookup (deref h' (merge_dst L1CrossDomainMessenger)) ''2.0.0'' = Some 3"
    using l [rule_format, of L1CrossDomainMessenger "''2.0.0''"] by (simp only: before option.case)
  have a3: "deref h' (merge_src L1CrossDomainMessenger)
      = deref merge_heap (merge_src L1CrossDomainMessenger)"
    using u by (rule spec)
  from m a1 a2 a3 have "\<exists>h'. Merge merge_heap merge_dst merge_src = Some h'
    \<and> DAList.lookup (deref h' (merge_dst L1CrossDomainMessenger)) ''1.0.0'' = Some 2
    \<and> DAList.lookup (deref h' (merge_dst L1CrossDomainMessenger)) ''2.0.0'' = Some 3
    \<and> deref h' (merge_src L1CrossDomainMessenger)
        = deref merge_heap (merge_src L1CrossDomainMessenger)"
    by (intro exI [of _ h'] conjI)
  with nonnil before show ?thesis by (intro conjI)
qed

text \<open>
  C6 as stated fails when a map is shared across roles. In \<open>shared_src\<close> the field
  \<open>L1ERC721Bridge\<close> is the map object of the field \<open>L1CrossDomainMessenger\<close> of
  \<open>merge_dst\<close>. All fourteen fields are non-nil. The first statement of \<open>Merge\<close>
  writes the entry \<^verbatim>\<open>1.0.0: 2\<close> into that object: the set \<open>L1ERC721Bridge\<close> of
  \<open>src\<close> maps \<^verbatim>\<open>1.0.0\<close> to \<open>1\<close> before the call and to \<open>2\<close> after it.
\<close>

theorem C6_counterexample:
  "shared_src L1ERC721Bridge = merge_dst L1CrossDomainMessenger
   \<and> DAList.lookup (deref merge_heap (shared_src L1ERC721Bridge)) ''1.0.0'' = Some 1
   \<and> (case Merge merge_heap merge_dst shared_src of
         None \<Rightarrow> None
       | Some h' \<Rightarrow> DAList.lookup (deref h' (shared_src L1ERC721Bridge)) ''1.0.0'') = Some 2"
  by code_simp

end
